theory Spec2Isabelle
  imports Complex_Main
begin

section \<open>The workspace registry of ARCLinearGitHub-MCP\<close>

text \<open>
  This theory embeds \<^verbatim>\<open>clients/workspace_registry.py\<close>: the class
  \<^verbatim>\<open>WorkspaceRegistry\<close>, which keeps one \<^verbatim>\<open>LinearClient\<close> per configured
  workspace and finds the workspace that owns a team key, with a cache in front of the
  search.

  Conventions of the embedding.
  \<^item> A Python \<^verbatim>\<open>dict\<close> whose iteration order is observed (\<^verbatim>\<open>_workspaces\<close>,
    \<^verbatim>\<open>_clients\<close>) is an association list in insertion order, read with \<open>map_of\<close>; the
    team cache, which is only read and written by key, is a map.
  \<^item> Every method takes the registry and returns its result together with the registry
    after the call; a raised exception is \<open>Inl\<close>, a returned value \<open>Inr\<close>. The state is
    returned in both cases, since what a method did before it raised stays done.
  \<^item> Strings are lists of 8-bit characters and are read as ASCII text: \<open>upper\<close>, the
    letter class and the digit class are those of ASCII.
  \<^item> \<^verbatim>\<open>await\<close> is sequential composition: the registry has a single caller.
\<close>

subsection \<open>Exceptions\<close>

text \<open>
  \<^verbatim>\<open>KeyError\<close>, \<^verbatim>\<open>ValueError\<close> and \<^verbatim>\<open>TeamNotFoundError\<close> are raised by the
  registry; \<^verbatim>\<open>LinearClientError\<close> is the one exception class it catches. Every other
  exception that a client method may raise is \<open>OtherException\<close>; no handler of the
  registry catches it.
\<close>

datatype error =
    KeyError string
  | ValueError string
  | TeamNotFoundError string
  | LinearClientError string
  | OtherException string

subsection \<open>The collaborators: teams and Linear clients\<close>

text \<open>
  \<^verbatim>\<open>models/linear.py\<close> and \<^verbatim>\<open>clients/linear.py\<close> are imported by the registry; the
  tests show their shape: a \<^verbatim>\<open>Team\<close> has \<^verbatim>\<open>id\<close>, \<^verbatim>\<open>name\<close> and \<^verbatim>\<open>key\<close>,
  a \<^verbatim>\<open>LinearClient\<close> is built from \<^verbatim>\<open>api_key\<close>, \<^verbatim>\<open>api_url\<close> and
  \<^verbatim>\<open>timeout\<close> and stores them. A client is a Python object, so it also has an
  identity (\<open>c_id\<close>), which is what \<^verbatim>\<open>is\<close> compares: two clients built from the same
  arguments are different objects.
\<close>

record team =
  t_id :: string
  t_name :: string
  t_key :: string

record linear_client =
  c_id :: nat
  c_api_key :: string
  c_api_url :: string
  c_timeout :: real

definition LinearClient :: "nat \<Rightarrow> string \<Rightarrow> string \<Rightarrow> real \<Rightarrow> linear_client" where
  "LinearClient i key url t = \<lparr>c_id = i, c_api_key = key, c_api_url = url, c_timeout = t\<rparr>"

text \<open>
  The calls that the registry makes on its clients are recorded, in order, in the
  registry state (\<open>calls\<close> below): this is what "no remote lookup" and "closed exactly
  once" are about.
\<close>

datatype call =
    GetTeamByKey linear_client string
  | ListTeams linear_client
  | Close linear_client

text \<open>
  What the client methods answer is a parameter of the model. An answer may depend on
  the client object and on everything the registry has asked before (the calls so far),
  so that a remote service that changes over time is covered. \<^verbatim>\<open>get_team_by_key\<close>
  returns a team or \<^verbatim>\<open>None\<close>, \<^verbatim>\<open>list_teams\<close> a list of teams; either may raise.
  \<^verbatim>\<open>close\<close> returns nothing and is taken to return normally: \<^verbatim>\<open>close_all\<close> has no
  handler around it.
\<close>

record remote =
  get_team_by_key :: "call list \<Rightarrow> linear_client \<Rightarrow> string \<Rightarrow> error + team option"
  list_teams :: "call list \<Rightarrow> linear_client \<Rightarrow> error + team list"

subsection \<open>The registry state\<close>

text \<open>
  The five attributes set by \<^verbatim>\<open>__init__\<close>, and two components that Python keeps
  implicitly: \<open>next_id\<close>, the identity that the next constructed client receives, and
  \<open>calls\<close>, the client calls made so far.
\<close>

record registry =
  workspaces :: "(string \<times> string) list"
  api_url :: string
  timeout :: real
  clients :: "(string \<times> linear_client) list"
  team_cache :: "string \<rightharpoonup> string"
  next_id :: nat
  calls :: "call list"

definition init :: "(string \<times> string) list \<Rightarrow> string \<Rightarrow> real \<Rightarrow> registry" where
  "init ws url t =
     \<lparr>workspaces = ws, api_url = url, timeout = t, clients = [],
      team_cache = Map.empty, next_id = 0, calls = []\<rparr>"

definition workspace_names :: "registry \<Rightarrow> string list" where
  "workspace_names s = map fst (workspaces s)"

subsection \<open>Strings\<close>

text \<open>\<^verbatim>\<open>sep.join(xs)\<close>.\<close>

fun join :: "string \<Rightarrow> string list \<Rightarrow> string" where
  "join sep [] = []"
| "join sep [x] = x"
| "join sep (x # y # ys) = x @ sep @ join sep (y # ys)"

text \<open>\<^verbatim>\<open>str.upper()\<close> on ASCII text: the letters a to z move to A to Z.\<close>

definition upper_char :: "char \<Rightarrow> char" where
  "upper_char c =
     (case map_of (zip ''abcdefghijklmnopqrstuvwxyz'' ''ABCDEFGHIJKLMNOPQRSTUVWXYZ'') c of
        Some u \<Rightarrow> u
      | None \<Rightarrow> c)"

definition upper :: "string \<Rightarrow> string" where
  "upper s = map upper_char s"

definition quoted :: "string \<Rightarrow> string" where
  "quoted s = [CHR 0x27] @ s @ [CHR 0x27]"

subsection \<open>\<^verbatim>\<open>get_client\<close>\<close>

definition get_client :: "registry \<Rightarrow> string \<Rightarrow> (error + linear_client) \<times> registry" where
  "get_client s workspace_name =
     (case map_of (workspaces s) workspace_name of
        None \<Rightarrow>
          (Inl (KeyError (''Workspace '' @ quoted workspace_name @ '' not configured. ''
                          @ ''Available: '' @ join '', '' (map fst (workspaces s)))), s)
      | Some key \<Rightarrow>
          (case map_of (clients s) workspace_name of
             Some c \<Rightarrow> (Inr c, s)
           | None \<Rightarrow>
               (let c = LinearClient (next_id s) key (api_url s) (timeout s)
                in (Inr c, s\<lparr>clients := clients s @ [(workspace_name, c)],
                             next_id := Suc (next_id s)\<rparr>))))"

subsection \<open>\<^verbatim>\<open>resolve_client_for_team\<close>\<close>

text \<open>
  The loop \<^verbatim>\<open>for ws_name in self._workspaces\<close> over the names still to be probed.
  Its result is \<open>Inr (Some client)\<close> for \<^verbatim>\<open>return client\<close>, \<open>Inr None\<close> when the
  loop ends without returning, and \<open>Inl e\<close> when an exception leaves it. The client is
  asked with the calls made before this one as history, and the call is recorded
  whatever its outcome. \<^verbatim>\<open>if team:\<close> holds for every team object, and fails for
  \<^verbatim>\<open>None\<close>.
\<close>

fun probe :: "remote \<Rightarrow> registry \<Rightarrow> string \<Rightarrow> string list
    \<Rightarrow> (error + linear_client option) \<times> registry" where
  "probe rem s team_key_upper [] = (Inr None, s)"
| "probe rem s team_key_upper (ws_name # rest) =
     (case get_client s ws_name of
        (Inl e, s1) \<Rightarrow> (Inl e, s1)
      | (Inr client, s1) \<Rightarrow>
          (let s2 = s1\<lparr>calls := calls s1 @ [GetTeamByKey client team_key_upper]\<rparr>
           in case get_team_by_key rem (calls s1) client team_key_upper of
                Inr (Some team) \<Rightarrow>
                  (Inr (Some client),
                   s2\<lparr>team_cache := (team_cache s2)(team_key_upper \<mapsto> ws_name)\<rparr>)
              | Inr None \<Rightarrow> probe rem s2 team_key_upper rest
              | Inl (LinearClientError m) \<Rightarrow> probe rem s2 team_key_upper rest
              | Inl e \<Rightarrow> (Inl e, s2)))"

definition team_not_found :: "registry \<Rightarrow> string \<Rightarrow> string" where
  "team_not_found s team_key =
     ''Team '' @ quoted team_key @ '' not found in any workspace. ''
     @ ''Searched workspaces: '' @ join '', '' (map fst (workspaces s)) @ ''. ''
     @ ''Use linear_list_workspaces to see available teams.''"

definition resolve_client_for_team :: "remote \<Rightarrow> registry \<Rightarrow> string
    \<Rightarrow> (error + linear_client) \<times> registry" where
  "resolve_client_for_team rem s team_key =
     (let team_key_upper = upper team_key
      in case team_cache s team_key_upper of
           Some ws_name \<Rightarrow> get_client s ws_name
         | None \<Rightarrow>
             (case probe rem s team_key_upper (map fst (workspaces s)) of
                (Inl e, s') \<Rightarrow> (Inl e, s')
              | (Inr (Some client), s') \<Rightarrow> (Inr client, s')
              | (Inr None, s') \<Rightarrow> (Inl (TeamNotFoundError (team_not_found s' team_key)), s')))"

subsection \<open>\<^verbatim>\<open>resolve_client_for_issue\<close>\<close>

text \<open>
  \<^verbatim>\<open>re.match(r"^([A-Za-z]+)-(\d+)$", identifier)\<close> as Python's \<^verbatim>\<open>re\<close> module
  defines it. The match starts at the first character. \<^verbatim>\<open>[A-Za-z]+\<close> is greedy and
  the next pattern character is a dash, which is no letter, so group 1 is the longest
  run of letters at the start; likewise group 2 is the longest run of digits after the
  dash, since \<^verbatim>\<open>$\<close> cannot hold in front of a digit. Without \<^verbatim>\<open>re.MULTILINE\<close>,
  \<^verbatim>\<open>$\<close> holds at the end of the string and also just before a newline that is the last
  character of the string. The result is the pair of groups, or \<open>None\<close> for no match.
\<close>

definition is_letter :: "char \<Rightarrow> bool" where
  "is_letter c \<longleftrightarrow>
     c \<in> set (''ABCDEFGHIJKLMNOPQRSTUVWXYZ'' @ ''abcdefghijklmnopqrstuvwxyz'')"

definition is_digit :: "char \<Rightarrow> bool" where
  "is_digit c \<longleftrightarrow> c \<in> set ''0123456789''"

definition newline :: char where
  "newline = CHR 0x0A"

definition at_dollar :: "string \<Rightarrow> bool" where
  "at_dollar rest = (rest = [] \<or> rest = [newline])"

definition re_match :: "string \<Rightarrow> (string \<times> string) option" where
  "re_match identifier =
     (let group1 = takeWhile is_letter identifier;
          after1 = dropWhile is_letter identifier
      in if group1 = [] then None
         else case after1 of
                [] \<Rightarrow> None
              | d # after_dash \<Rightarrow>
                  if d \<noteq> CHR ''-'' then None
                  else (let group2 = takeWhile is_digit after_dash;
                            rest = dropWhile is_digit after_dash
                        in if group2 = [] then None
                           else if at_dollar rest then Some (group1, group2)
                           else None))"

definition invalid_format :: "string \<Rightarrow> string" where
  "invalid_format identifier =
     ''Invalid issue identifier format: '' @ quoted identifier @ ''. ''
     @ ''Expected format: TEAM-123 (e.g., FAVRES-123)''"

definition resolve_client_for_issue :: "remote \<Rightarrow> registry \<Rightarrow> string
    \<Rightarrow> (error + linear_client) \<times> registry" where
  "resolve_client_for_issue rem s identifier =
     (case re_match identifier of
        None \<Rightarrow> (Inl (ValueError (invalid_format identifier)), s)
      | Some (team_key, number) \<Rightarrow> resolve_client_for_team rem s team_key)"

subsection \<open>\<^verbatim>\<open>list_all_workspaces_with_teams\<close>\<close>

text \<open>
  One entry of the returned list: the dictionary with the keys \<^verbatim>\<open>workspace\<close>,
  \<^verbatim>\<open>teams\<close> and, for a workspace that failed, \<^verbatim>\<open>error\<close> (\<open>None\<close> when the key is
  absent). A team is reported as the dictionary of its key, name and id.
\<close>

record team_dict =
  d_key :: string
  d_name :: string
  d_id :: string

record workspace_entry =
  e_workspace :: string
  e_error :: "string option"
  e_teams :: "team_dict list"

text \<open>The inner loop \<^verbatim>\<open>for team in teams\<close>: the cache and the list it builds.\<close>

fun cache_teams :: "(string \<rightharpoonup> string) \<Rightarrow> string \<Rightarrow> team list \<Rightarrow> (string \<rightharpoonup> string)" where
  "cache_teams cache ws_name [] = cache"
| "cache_teams cache ws_name (t # ts) =
     cache_teams (cache(upper (t_key t) \<mapsto> ws_name)) ws_name ts"

definition team_entry :: "team \<Rightarrow> team_dict" where
  "team_entry t = \<lparr>d_key = t_key t, d_name = t_name t, d_id = t_id t\<rparr>"

text \<open>
  The outer loop, with \<^verbatim>\<open>result\<close> as accumulator. \<^verbatim>\<open>str(e)\<close> of a
  \<^verbatim>\<open>LinearClientError\<close> is its message.
\<close>

fun list_loop :: "remote \<Rightarrow> registry \<Rightarrow> string list \<Rightarrow> workspace_entry list
    \<Rightarrow> (error + workspace_entry list) \<times> registry" where
  "list_loop rem s [] result = (Inr result, s)"
| "list_loop rem s (ws_name # rest) result =
     (case get_client s ws_name of
        (Inl e, s1) \<Rightarrow> (Inl e, s1)
      | (Inr client, s1) \<Rightarrow>
          (let s2 = s1\<lparr>calls := calls s1 @ [ListTeams client]\<rparr>
           in case list_teams rem (calls s1) client of
                Inr teams \<Rightarrow>
                  list_loop rem
                    (s2\<lparr>team_cache := cache_teams (team_cache s2) ws_name teams\<rparr>) rest
                    (result @ [\<lparr>e_workspace = ws_name, e_error = None,
                                e_teams = map team_entry teams\<rparr>])
              | Inl (LinearClientError m) \<Rightarrow>
                  list_loop rem s2 rest
                    (result @ [\<lparr>e_workspace = ws_name, e_error = Some m, e_teams = []\<rparr>])
              | Inl e \<Rightarrow> (Inl e, s2)))"

text \<open>
  The method returns \<^verbatim>\<open>{"workspaces": result}\<close>; the model returns the list under that
  single key.
\<close>

definition list_all_workspaces_with_teams :: "remote \<Rightarrow> registry
    \<Rightarrow> (error + workspace_entry list) \<times> registry" where
  "list_all_workspaces_with_teams rem s = list_loop rem s (map fst (workspaces s)) []"

subsection \<open>\<^verbatim>\<open>close_all\<close>\<close>

fun close_each :: "registry \<Rightarrow> linear_client list \<Rightarrow> registry" where
  "close_each s [] = s"
| "close_each s (client # rest) = close_each (s\<lparr>calls := calls s @ [Close client]\<rparr>) rest"

definition close_all :: "registry \<Rightarrow> registry" where
  "close_all s = (close_each s (map snd (clients s)))\<lparr>clients := []\<rparr>"

subsection \<open>The states a registry can be in\<close>

text \<open>
  A registry is constructed from a dictionary, whose keys are distinct, and is then
  used through its public methods, in any order, with any arguments, whether they
  return or raise. \<^verbatim>\<open>workspace_names\<close> changes nothing and needs no rule.
\<close>

inductive reachable :: "remote \<Rightarrow> registry \<Rightarrow> bool" for rem :: remote where
  constructed: "distinct (map fst ws) \<Longrightarrow> reachable rem (init ws url t)"
| after_get_client: "reachable rem s \<Longrightarrow> reachable rem (snd (get_client s w))"
| after_resolve_team:
    "reachable rem s \<Longrightarrow> reachable rem (snd (resolve_client_for_team rem s k))"
| after_resolve_issue:
    "reachable rem s \<Longrightarrow> reachable rem (snd (resolve_client_for_issue rem s i))"
| after_list_all:
    "reachable rem s \<Longrightarrow> reachable rem (snd (list_all_workspaces_with_teams rem s))"
| after_close_all: "reachable rem s \<Longrightarrow> reachable rem (close_all s)"

subsection \<open>What a workspace's client answers\<close>

text \<open>
  The client objects that \<open>get_client s w\<close> can hand out for a workspace: the object
  the registry already holds for \<open>w\<close> or, when it holds none, an object constructed
  from the credential of \<open>w\<close> and the registry's endpoint and timeout, whatever
  identity it receives.
\<close>

definition client_instance :: "registry \<Rightarrow> string \<Rightarrow> linear_client \<Rightarrow> bool" where
  "client_instance s w c \<longleftrightarrow>
     (case map_of (clients s) w of
        Some c0 \<Rightarrow> c = c0
      | None \<Rightarrow> (\<exists>i key. map_of (workspaces s) w = Some key
                   \<and> c = LinearClient i key (api_url s) (timeout s)))"

text \<open>
  A workspace returns a team for a key when every client object that can stand for it
  answers the lookup with a team, whenever it is asked. It finds no team when every such
  lookup returns \<^verbatim>\<open>None\<close> or raises \<^verbatim>\<open>LinearClientError\<close>.
\<close>

definition returns_team :: "remote \<Rightarrow> registry \<Rightarrow> string \<Rightarrow> string \<Rightarrow> bool" where
  "returns_team rem s w k \<longleftrightarrow>
     (\<forall>h c. client_instance s w c \<longrightarrow> (\<exists>t. get_team_by_key rem h c k = Inr (Some t)))"

definition finds_no_team :: "remote \<Rightarrow> registry \<Rightarrow> string \<Rightarrow> string \<Rightarrow> bool" where
  "finds_no_team rem s w k \<longleftrightarrow>
     (\<forall>h c. client_instance s w c \<longrightarrow>
        get_team_by_key rem h c k = Inr None
        \<or> (\<exists>m. get_team_by_key rem h c k = Inl (LinearClientError m)))"




text \<open>
  \<open>grows s s'\<close>: the configuration is the same and every client that \<open>s\<close> holds is
  still held by \<open>s'\<close>, for the same workspace.
\<close>

definition grows :: "registry \<Rightarrow> registry \<Rightarrow> bool" where
  "grows s s' \<longleftrightarrow>
     workspaces s' = workspaces s \<and> api_url s' = api_url s \<and> timeout s' = timeout s
     \<and> (\<forall>w c. map_of (clients s) w = Some c \<longrightarrow> map_of (clients s') w = Some c)
     \<and> (\<forall>w c. client_instance s' w c \<longrightarrow> client_instance s w c)"

text \<open>The clients that a registry holds for a list of workspaces, name by name.\<close>

definition clients_of :: "registry \<Rightarrow> string list \<Rightarrow> linear_client list \<Rightarrow> bool" where
  "clients_of s ws cs \<longleftrightarrow> list_all2 (\<lambda>w c. map_of (clients s) w = Some c) ws cs"

text \<open>
  What holds of every registry in use: the cache names configured workspaces only, and
  the clients it holds are distinct objects, all constructed before now.
\<close>

definition registry_inv :: "registry \<Rightarrow> bool" where
  "registry_inv s \<longleftrightarrow>
     ran (team_cache s) \<subseteq> set (workspace_names s)
     \<and> (\<forall>c\<in>set (map snd (clients s)). c_id c < next_id s)
     \<and> distinct (map (c_id \<circ> snd) (clients s))"

text \<open>
  Two calls of \<open>resolve_client_for_team\<close> from registries that hold the same clients
  as \<open>s\<close> have the same result when both raise the same exception, or both return the
  client of one and the same workspace, built from the same credential, endpoint and
  timeout, and the very same object when \<open>s\<close> already held a client for that
  workspace. (A client that a call has to construct receives its identity from the
  number of clients constructed before it, which is part of the cost of the call.)
\<close>

definition same_resolution :: "registry \<Rightarrow> (error + linear_client) \<times> registry
    \<Rightarrow> (error + linear_client) \<times> registry \<Rightarrow> bool" where
  "same_resolution s a b \<longleftrightarrow>
     (\<exists>e. fst a = Inl e \<and> fst b = Inl e)
     \<or> (\<exists>w c1 c2. fst a = Inr c1 \<and> fst b = Inr c2
           \<and> map_of (clients (snd a)) w = Some c1 \<and> map_of (clients (snd b)) w = Some c2
           \<and> c_api_key c1 = c_api_key c2 \<and> c_api_url c1 = c_api_url c2
           \<and> c_timeout c1 = c_timeout c2
           \<and> (map_of (clients s) w \<noteq> None \<longrightarrow> c1 = c2))"

text \<open>Two registries that differ in the team cache at most.\<close>

definition cache_apart :: "registry \<Rightarrow> registry \<Rightarrow> bool" where
  "cache_apart s t \<longleftrightarrow>
     workspaces t = workspaces s \<and> api_url t = api_url s \<and> timeout t = timeout s
     \<and> clients t = clients s \<and> next_id t = next_id s \<and> calls t = calls s"

subsection \<open>A registry for the examples\<close>

text \<open>
  The registry of the test suite: the workspaces \<^verbatim>\<open>ios\<close> and \<^verbatim>\<open>backend\<close>.
  In \<open>example_remote\<close> the team FAVRES belongs to \<^verbatim>\<open>ios\<close> and the team BACK to
  \<^verbatim>\<open>backend\<close>; listing the teams of \<^verbatim>\<open>ios\<close> fails.
\<close>

definition example_workspaces :: "(string \<times> string) list" where
  "example_workspaces = [(''ios'', ''lin_api_ios''), (''backend'', ''lin_api_backend'')]"

definition example_registry :: registry where
  "example_registry = init example_workspaces ''https://api.linear.app/graphql'' 10"

definition team_favres :: team where
  "team_favres = \<lparr>t_id = ''team-1'', t_name = ''iOS App'', t_key = ''FAVRES''\<rparr>"

definition team_back :: team where
  "team_back = \<lparr>t_id = ''team-2'', t_name = ''Backend'', t_key = ''BACK''\<rparr>"

definition example_remote :: remote where
  "example_remote =
     \<lparr>get_team_by_key = (\<lambda>h c k.
        if c_api_key c = ''lin_api_ios'' \<and> k = ''FAVRES'' then Inr (Some team_favres)
        else if c_api_key c = ''lin_api_backend'' \<and> k = ''BACK'' then Inr (Some team_back)
        else if c_api_key c = ''lin_api_ios'' then Inl (LinearClientError ''rate limited'')
        else Inr None),
      list_teams = (\<lambda>h c.
        if c_api_key c = ''lin_api_ios'' then Inl (LinearClientError ''unauthorized'')
        else Inr [team_back])\<rparr>"

text \<open>The example registry after \<^verbatim>\<open>resolve_client_for_team("favres")\<close>.\<close>

definition example_resolved :: registry where
  "example_resolved = snd (resolve_client_for_team example_remote example_registry ''favres'')"

text \<open>The example registry after \<^verbatim>\<open>resolve_client_for_team("back")\<close>, which asks both clients.\<close>

definition example_probed :: registry where
  "example_probed = snd (resolve_client_for_team example_remote example_registry ''back'')"

text \<open>
  The registry after \<^verbatim>\<open>resolve_client_for_team("back")\<close> and \<^verbatim>\<open>close_all()\<close>:
  the cache knows BACK, and no client is held.
\<close>

definition example_closed :: registry where
  "example_closed = close_all example_probed"

text \<open>
  A remote in which the client of \<^verbatim>\<open>ios\<close> raises an exception other than
  \<^verbatim>\<open>LinearClientError\<close> on every lookup, while \<^verbatim>\<open>backend\<close> owns the team BACK
  and both workspaces list their teams; and the example registry after
  \<^verbatim>\<open>list_all_workspaces_with_teams()\<close> with that remote, which fills the cache.
\<close>

definition broken_remote :: remote where
  "broken_remote =
     \<lparr>get_team_by_key = (\<lambda>h c k.
        if c_api_key c = ''lin_api_ios'' then Inl (OtherException ''boom'')
        else if c_api_key c = ''lin_api_backend'' \<and> k = ''BACK'' then Inr (Some team_back)
        else Inr None),
      list_teams = (\<lambda>h c.
        if c_api_key c = ''lin_api_ios'' then Inr [] else Inr [team_back])\<rparr>"

definition broken_listed :: registry where
  "broken_listed = snd (list_all_workspaces_with_teams broken_remote example_registry)"

section \<open>Properties\<close>

subsection \<open>\<^verbatim>\<open>get_client\<close>\<close>

lemma get_client_unknown:
  "map_of (workspaces s) w = None \<Longrightarrow>
   get_client s w = (Inl (KeyError (''Workspace '' @ quoted w @ '' not configured. ''
                          @ ''Available: '' @ join '', '' (workspace_names s))), s)"
  by (simp add: get_client_def workspace_names_def)

lemma get_client_existing:
  "map_of (workspaces s) w = Some key \<Longrightarrow> map_of (clients s) w = Some c \<Longrightarrow>
   get_client s w = (Inr c, s)"
  by (simp add: get_client_def)

lemma get_client_new:
  "map_of (workspaces s) w = Some key \<Longrightarrow> map_of (clients s) w = None \<Longrightarrow>
   get_client s w =
     (Inr (LinearClient (next_id s) key (api_url s) (timeout s)),
      s\<lparr>clients := clients s @ [(w, LinearClient (next_id s) key (api_url s) (timeout s))],
        next_id := Suc (next_id s)\<rparr>)"
  by (simp add: get_client_def Let_def)

lemma get_client_frame:
  assumes "get_client s w = (r, s')"
  shows "workspaces s' = workspaces s" "api_url s' = api_url s" "timeout s' = timeout s"
    "team_cache s' = team_cache s" "calls s' = calls s"
  using assms by (auto simp: get_client_def Let_def split: option.splits)

lemma get_client_keeps:
  assumes "get_client s w = (r, s')" "map_of (clients s) w' = Some c"
  shows "map_of (clients s') w' = Some c"
  using assms by (auto simp: get_client_def Let_def map_add_def split: option.splits)

lemma get_client_Inr:
  assumes "get_client s w = (Inr c, s')"
  shows "map_of (clients s') w = Some c" "client_instance s w c" "map_of (workspaces s) w \<noteq> None"
  using assms by (auto simp: get_client_def Let_def map_add_def client_instance_def split: option.splits)

lemma get_client_configured:
  assumes "map_of (workspaces s) w = Some key"
  shows "\<exists>c s'. get_client s w = (Inr c, s')"
  using assms by (auto simp: get_client_def Let_def split: option.splits)

lemma get_client_instance_mono:
  assumes "get_client s w = (r, s')" "client_instance s' w' c"
  shows "client_instance s w' c"
  using assms
  by (auto simp: get_client_def Let_def map_add_def client_instance_def split: option.splits if_splits)

text \<open>
  C7. For a configured workspace name, a second \<open>get_client\<close> returns the very client
  object that the first call returned, and changes nothing: no client is constructed, no
  identity is used up. For a name that is not configured, \<open>get_client\<close> raises
  \<^verbatim>\<open>KeyError\<close> with a message that lists the configured names, in order and
  separated by commas, and leaves the registry as it was: no client is created or kept.
\<close>

theorem get_client_stable_or_unknown:
  "(w \<in> set (workspace_names s) \<longrightarrow>
      (\<exists>c s1. get_client s w = (Inr c, s1) \<and> get_client s1 w = (Inr c, s1)))
   \<and> (w \<notin> set (workspace_names s) \<longrightarrow>
      get_client s w =
        (Inl (KeyError (''Workspace '' @ quoted w @ '' not configured. ''
                        @ ''Available: '' @ join '', '' (workspace_names s))), s))"
proof (intro conjI impI)
  assume "w \<in> set (workspace_names s)"
  then obtain key where key: "map_of (workspaces s) w = Some key"
    using map_of_eq_None_iff[of "workspaces s" w] by (auto simp: workspace_names_def)
  then obtain c s1 where g: "get_client s w = (Inr c, s1)"
    using get_client_configured by blast
  have "map_of (clients s1) w = Some c" "workspaces s1 = workspaces s"
    using get_client_Inr(1)[OF g] get_client_frame(1)[OF g] by simp_all
  then have "get_client s1 w = (Inr c, s1)"
    using key by (simp add: get_client_existing)
  with g show "\<exists>c s1. get_client s w = (Inr c, s1) \<and> get_client s1 w = (Inr c, s1)"
    by blast
next
  assume "w \<notin> set (workspace_names s)"
  then have "map_of (workspaces s) w = None"
    by (simp add: workspace_names_def map_of_eq_None_iff)
  then show "get_client s w =
        (Inl (KeyError (''Workspace '' @ quoted w @ '' not configured. ''
                        @ ''Available: '' @ join '', '' (workspace_names s))), s)"
    by (rule get_client_unknown)
qed

theorem get_client_stable_or_unknown_witness:
  "(\<exists>c s1. get_client example_registry ''ios'' = (Inr c, s1)
       \<and> get_client s1 ''ios'' = (Inr c, s1))
   \<and> get_client example_registry ''unknown'' =
       (Inl (KeyError (''Workspace '' @ quoted ''unknown''
                       @ '' not configured. Available: ios, backend'')), example_registry)"
  using get_client_stable_or_unknown [of "''ios''" example_registry]
    get_client_stable_or_unknown [of "''unknown''" example_registry]
  by (simp add: workspace_names_def example_registry_def example_workspaces_def init_def)

subsection \<open>The probing loop\<close>

lemma grows_refl: "grows s s"
  by (simp add: grows_def)

lemma grows_trans: "grows s s1 \<Longrightarrow> grows s1 s2 \<Longrightarrow> grows s s2"
  by (simp add: grows_def)

lemma grows_get_client: "get_client s w = (r, s') \<Longrightarrow> grows s s'"
  unfolding grows_def
  using get_client_frame(1,2,3)[of s w r s'] get_client_keeps[of s w r s']
    get_client_instance_mono[of s w r s']
  by blast

lemma client_instance_cong:
  "clients s' = clients s \<Longrightarrow> workspaces s' = workspaces s \<Longrightarrow> api_url s' = api_url s
   \<Longrightarrow> timeout s' = timeout s \<Longrightarrow> client_instance s' w c = client_instance s w c"
  by (simp add: client_instance_def cong: option.case_cong)

lemma grows_calls_cache:
  "grows s (s\<lparr>calls := cs\<rparr>)" "grows s (s\<lparr>calls := cs, team_cache := m\<rparr>)"
  by (simp_all add: grows_def client_instance_def cong: option.case_cong)

lemma clients_of_grows: "clients_of s ws cs \<Longrightarrow> grows s s' \<Longrightarrow> clients_of s' ws cs"
  unfolding clients_of_def grows_def by (erule list_all2_mono) blast

lemma returns_team_grows: "returns_team rem s w k \<Longrightarrow> grows s s' \<Longrightarrow> returns_team rem s' w k"
  by (simp add: returns_team_def grows_def)

lemma finds_no_team_grows:
  "finds_no_team rem s w k \<Longrightarrow> grows s s' \<Longrightarrow> finds_no_team rem s' w k"
  by (simp add: finds_no_team_def grows_def)

lemma probe_step_skip:
  assumes "get_client s w = (Inr c, s1)"
    and "get_team_by_key rem (calls s1) c k = Inr None
         \<or> (\<exists>m. get_team_by_key rem (calls s1) c k = Inl (LinearClientError m))"
  shows "probe rem s k (w # rest) = probe rem (s1\<lparr>calls := calls s1 @ [GetTeamByKey c k]\<rparr>) k rest"
  using assms by (auto simp: Let_def)

lemma probe_step_found:
  assumes "get_client s w = (Inr c, s1)"
    and "get_team_by_key rem (calls s1) c k = Inr (Some t)"
  shows "probe rem s k (w # rest) =
           (Inr (Some c), s1\<lparr>calls := calls s1 @ [GetTeamByKey c k],
                                team_cache := (team_cache s1)(k \<mapsto> w)\<rparr>)"
  using assms by (simp add: Let_def)

lemma probe_skips:
  assumes "\<forall>w\<in>set pre. map_of (workspaces s) w \<noteq> None \<and> finds_no_team rem s w k"
  shows "\<exists>s1 cs. probe rem s k (pre @ rest) = probe rem s1 k rest
           \<and> grows s s1 \<and> clients_of s1 pre cs
           \<and> calls s1 = calls s @ map (\<lambda>c. GetTeamByKey c k) cs
           \<and> team_cache s1 = team_cache s"
  using assms
proof (induction pre arbitrary: s)
  case Nil
  show ?case
    by (rule exI[of _ s], rule exI[of _ "[]"]) (simp add: grows_refl clients_of_def)
next
  case (Cons w pre)
  from Cons.prems obtain key where "map_of (workspaces s) w = Some key" by auto
  then obtain c s1 where g: "get_client s w = (Inr c, s1)"
    using get_client_configured by blast
  have inst: "client_instance s w c" by (rule get_client_Inr(2)[OF g])
  have "finds_no_team rem s w k" using Cons.prems by simp
  with inst have ans: "get_team_by_key rem (calls s1) c k = Inr None
         \<or> (\<exists>m. get_team_by_key rem (calls s1) c k = Inl (LinearClientError m))"
    unfolding finds_no_team_def by blast
  define s2 where "s2 = s1\<lparr>calls := calls s1 @ [GetTeamByKey c k]\<rparr>"
  have step: "probe rem s k ((w # pre) @ rest) = probe rem s2 k (pre @ rest)"
    using probe_step_skip[OF g ans] by (simp add: s2_def)
  have g1: "grows s s1" by (rule grows_get_client[OF g])
  have g12: "grows s1 s2" unfolding s2_def by (rule grows_calls_cache)
  have g2: "grows s s2" by (rule grows_trans[OF g1 g12])
  have "\<forall>w\<in>set pre. map_of (workspaces s2) w \<noteq> None \<and> finds_no_team rem s2 w k"
    using Cons.prems g2 finds_no_team_grows[OF _ g2] by (auto simp: grows_def)
  from Cons.IH[OF this] obtain s3 cs where
    ih: "probe rem s2 k (pre @ rest) = probe rem s3 k rest" "grows s2 s3"
      "clients_of s3 pre cs" "calls s3 = calls s2 @ map (\<lambda>c. GetTeamByKey c k) cs"
      "team_cache s3 = team_cache s2"
    by blast
  have c_s2: "map_of (clients s2) w = Some c"
    using get_client_Inr(1)[OF g] by (simp add: s2_def)
  then have c_s3: "map_of (clients s3) w = Some c"
    using ih(2) by (simp add: grows_def)
  have "clients_of s3 (w # pre) (c # cs)"
    using c_s3 ih(3) by (simp add: clients_of_def)
  moreover have "calls s3 = calls s @ map (\<lambda>c. GetTeamByKey c k) (c # cs)"
    using ih(4) get_client_frame(5)[OF g] by (simp add: s2_def)
  moreover have "team_cache s3 = team_cache s"
    using ih(5) get_client_frame(4)[OF g] by (simp add: s2_def)
  moreover have "grows s s3" by (rule grows_trans[OF g2 ih(2)])
  moreover have "probe rem s k ((w # pre) @ rest) = probe rem s3 k rest"
    using step ih(1) by simp
  ultimately show ?case by blast
qed

lemma probe_finds:
  assumes pre: "\<forall>w'\<in>set pre. map_of (workspaces s) w' \<noteq> None \<and> finds_no_team rem s w' k"
    and conf: "map_of (workspaces s) w \<noteq> None"
    and team: "returns_team rem s w k"
  shows "\<exists>c s' cs. probe rem s k (pre @ w # rest) = (Inr (Some c), s')
           \<and> grows s s' \<and> clients_of s' (pre @ [w]) (cs @ [c])
           \<and> calls s' = calls s @ map (\<lambda>c. GetTeamByKey c k) (cs @ [c])
           \<and> team_cache s' = (team_cache s)(k \<mapsto> w)"
proof -
  from probe_skips[OF pre, of "w # rest"] obtain s1 cs where
    sk: "probe rem s k (pre @ w # rest) = probe rem s1 k (w # rest)" "grows s s1"
      "clients_of s1 pre cs" "calls s1 = calls s @ map (\<lambda>c. GetTeamByKey c k) cs"
      "team_cache s1 = team_cache s"
    by blast
  from conf sk(2) obtain key where "map_of (workspaces s1) w = Some key"
    by (auto simp: grows_def)
  then obtain c s2 where g: "get_client s1 w = (Inr c, s2)"
    using get_client_configured by blast
  have "client_instance s1 w c" by (rule get_client_Inr(2)[OF g])
  then have "client_instance s w c" using sk(2) by (simp add: grows_def)
  with team obtain t where t: "get_team_by_key rem (calls s2) c k = Inr (Some t)"
    unfolding returns_team_def by blast
  define s3 where "s3 = s2\<lparr>calls := calls s2 @ [GetTeamByKey c k],
                          team_cache := (team_cache s2)(k \<mapsto> w)\<rparr>"
  have res: "probe rem s k (pre @ w # rest) = (Inr (Some c), s3)"
    using sk(1) probe_step_found[OF g t] by (simp add: s3_def)
  have g12: "grows s1 s2" by (rule grows_get_client[OF g])
  have g23: "grows s2 s3" unfolding s3_def by (rule grows_calls_cache)
  have g13: "grows s1 s3" by (rule grows_trans[OF g12 g23])
  have g03: "grows s s3" by (rule grows_trans[OF sk(2) g13])
  have "map_of (clients s3) w = Some c"
    using get_client_Inr(1)[OF g] by (simp add: s3_def)
  then have cl: "clients_of s3 (pre @ [w]) (cs @ [c])"
    using clients_of_grows[OF sk(3) g13] by (simp add: clients_of_def list_all2_appendI)
  have ca: "calls s3 = calls s @ map (\<lambda>c. GetTeamByKey c k) (cs @ [c])"
    using sk(4) get_client_frame(5)[OF g] by (simp add: s3_def)
  have tc: "team_cache s3 = (team_cache s)(k \<mapsto> w)"
    using sk(5) get_client_frame(4)[OF g] by (simp add: s3_def)
  from res g03 cl ca tc show ?thesis by blast
qed

lemma probe_exhausts:
  assumes "\<forall>w\<in>set ws. map_of (workspaces s) w \<noteq> None \<and> finds_no_team rem s w k"
  shows "\<exists>s' cs. probe rem s k ws = (Inr None, s')
           \<and> grows s s' \<and> clients_of s' ws cs
           \<and> calls s' = calls s @ map (\<lambda>c. GetTeamByKey c k) cs
           \<and> team_cache s' = team_cache s"
  using probe_skips[OF assms, of "[]"] by simp

lemma get_client_Inl:
  assumes "get_client s w = (Inl e, s')"
  shows "s' = s" "\<exists>m. e = KeyError m"
  using assms by (auto simp: get_client_def Let_def split: option.splits)

lemma probe_Cons_cases:
  assumes "probe rem s k (w # rest) = (r, s')"
  shows "(\<exists>e. get_client s w = (Inl e, s') \<and> r = Inl e)
     \<or> (\<exists>c s1. get_client s w = (Inr c, s1)
           \<and> ((r = Inr (Some c)
                \<and> s' = s1\<lparr>calls := calls s1 @ [GetTeamByKey c k],
                            team_cache := (team_cache s1)(k \<mapsto> w)\<rparr>)
              \<or> probe rem (s1\<lparr>calls := calls s1 @ [GetTeamByKey c k]\<rparr>) k rest = (r, s')
              \<or> (\<exists>e. r = Inl e \<and> s' = s1\<lparr>calls := calls s1 @ [GetTeamByKey c k]\<rparr>
                      \<and> (\<forall>m. e \<noteq> LinearClientError m))))"
  using assms
  by (auto simp: Let_def split: prod.splits sum.splits option.splits error.splits)

lemma probe_props:
  "probe rem s k ws = (r, s') \<Longrightarrow>
     grows s s' \<and> (\<exists>xs. calls s' = calls s @ xs) \<and> (\<forall>m. r \<noteq> Inl (LinearClientError m))"
proof (induction ws arbitrary: s)
  case Nil
  then show ?case by (auto simp: grows_refl)
next
  case (Cons w ws)
  from probe_Cons_cases[OF Cons.prems]
  consider (raise) e where "get_client s w = (Inl e, s')" "r = Inl e"
    | (found) c s1 where "get_client s w = (Inr c, s1)" "r = Inr (Some c)"
        "s' = s1\<lparr>calls := calls s1 @ [GetTeamByKey c k],
                  team_cache := (team_cache s1)(k \<mapsto> w)\<rparr>"
    | (continue) c s1 where "get_client s w = (Inr c, s1)"
        "probe rem (s1\<lparr>calls := calls s1 @ [GetTeamByKey c k]\<rparr>) k ws = (r, s')"
    | (other) c s1 e where "get_client s w = (Inr c, s1)" "r = Inl e"
        "s' = s1\<lparr>calls := calls s1 @ [GetTeamByKey c k]\<rparr>" "\<forall>m. e \<noteq> LinearClientError m"
    by blast
  then show ?case
  proof cases
    case raise
    then show ?thesis
      using get_client_Inl[OF raise(1)] by (auto simp: grows_refl)
  next
    case found
    have "grows s1 s'" unfolding found(3) by (rule grows_calls_cache)
    then have "grows s s'" using grows_get_client[OF found(1)] grows_trans by blast
    moreover have "calls s' = calls s @ [GetTeamByKey c k]"
      using get_client_frame(5)[OF found(1)] by (simp add: found(3))
    ultimately show ?thesis using found(2) by simp
  next
    case continue
    define s2 where "s2 = s1\<lparr>calls := calls s1 @ [GetTeamByKey c k]\<rparr>"
    have ih: "grows s2 s'" "\<exists>xs. calls s' = calls s2 @ xs"
      "\<forall>m. r \<noteq> Inl (LinearClientError m)"
      using Cons.IH[of s2] continue(2) by (simp_all add: s2_def)
    have "grows s1 s2" unfolding s2_def by (rule grows_calls_cache)
    then have "grows s s'"
      using grows_get_client[OF continue(1)] ih(1) grows_trans by blast
    moreover have "\<exists>xs. calls s' = calls s @ xs"
      using ih(2) get_client_frame(5)[OF continue(1)] by (auto simp: s2_def)
    ultimately show ?thesis using ih(3) by simp
  next
    case other
    have "grows s1 s'" unfolding other(3) by (rule grows_calls_cache)
    then have "grows s s'" using grows_get_client[OF other(1)] grows_trans by blast
    moreover have "calls s' = calls s @ [GetTeamByKey c k]"
      using get_client_frame(5)[OF other(1)] by (simp add: other(3))
    ultimately show ?thesis using other(2,4) by simp
  qed
qed

lemma probe_asks_first:
  assumes p: "probe rem s k (w # rest) = (r, s')" and conf: "map_of (workspaces s) w \<noteq> None"
  shows "\<exists>c more. map_of (clients s') w = Some c \<and> calls s' = calls s @ GetTeamByKey c k # more"
proof -
  from conf obtain key where "map_of (workspaces s) w = Some key" by auto
  then obtain c s1 where g: "get_client s w = (Inr c, s1)"
    using get_client_configured by blast
  define s2 where "s2 = s1\<lparr>calls := calls s1 @ [GetTeamByKey c k]\<rparr>"
  have c2: "map_of (clients s2) w = Some c" "calls s2 = calls s @ [GetTeamByKey c k]"
    using get_client_Inr(1)[OF g] get_client_frame(5)[OF g] by (simp_all add: s2_def)
  from probe_Cons_cases[OF p] g
  consider "s' = s2\<lparr>team_cache := (team_cache s1)(k \<mapsto> w)\<rparr>"
    | "probe rem s2 k rest = (r, s')" | "s' = s2"
    by (auto simp: s2_def)
  then show ?thesis
  proof cases
    case 1
    then show ?thesis using c2 by simp
  next
    case 2
    from probe_props[OF 2] obtain xs where "grows s2 s'" "calls s' = calls s2 @ xs" by blast
    then show ?thesis using c2 by (simp add: grows_def)
  next
    case 3
    then show ?thesis using c2 by simp
  qed
qed

lemma configured:
  "w \<in> set (workspace_names s) \<longleftrightarrow> map_of (workspaces s) w \<noteq> None"
  by (simp add: workspace_names_def map_of_eq_None_iff)

subsection \<open>\<^verbatim>\<open>resolve_client_for_team\<close>\<close>

lemma resolve_miss:
  assumes "team_cache s (upper k) = None"
  shows "resolve_client_for_team rem s k =
    (case probe rem s (upper k) (workspace_names s) of
       (Inl e, s') \<Rightarrow> (Inl e, s')
     | (Inr (Some client), s') \<Rightarrow> (Inr client, s')
     | (Inr None, s') \<Rightarrow> (Inl (TeamNotFoundError (team_not_found s' k)), s'))"
  using assms by (simp add: resolve_client_for_team_def workspace_names_def)


text \<open>
  C2. On a cache hit the call is \<open>get_client\<close> of the cached workspace name, and it
  makes no call on any client: the record of calls is what it was.
\<close>

theorem resolve_team_cache_hit:
  assumes "team_cache s (upper k) = Some w"
  shows "resolve_client_for_team rem s k = get_client s w
         \<and> calls (snd (resolve_client_for_team rem s k)) = calls s"
proof -
  have "resolve_client_for_team rem s k = get_client s w"
    using assms by (simp add: resolve_client_for_team_def)
  moreover have "calls (snd (get_client s w)) = calls s"
    using get_client_frame(5)[of s w "fst (get_client s w)" "snd (get_client s w)"] by simp
  ultimately show ?thesis by simp
qed

lemma example_upper: "upper ''back'' = ''BACK''" "upper ''favres'' = ''FAVRES''"
  "upper ''FAVRES'' = ''FAVRES''" "upper ''unknown'' = ''UNKNOWN''"
  by (simp_all add: upper_def upper_char_def)

lemma example_names: "workspace_names example_registry = [''ios'', ''backend'']"
  by (simp add: workspace_names_def example_registry_def example_workspaces_def init_def)

lemma example_instances:
  "client_instance example_registry ''ios'' c \<Longrightarrow> c_api_key c = ''lin_api_ios''"
  "client_instance example_registry ''backend'' c \<Longrightarrow> c_api_key c = ''lin_api_backend''"
  by (auto simp: client_instance_def example_registry_def example_workspaces_def init_def
      LinearClient_def)

lemma example_resolved_eq:
  "example_resolved =
     example_registry\<lparr>
       clients := [(''ios'', LinearClient 0 ''lin_api_ios'' ''https://api.linear.app/graphql'' 10)],
       team_cache := [''FAVRES'' \<mapsto> ''ios''],
       next_id := 1,
       calls := [GetTeamByKey (LinearClient 0 ''lin_api_ios'' ''https://api.linear.app/graphql'' 10)
                   ''FAVRES'']\<rparr>"
  by (simp add: example_resolved_def resolve_client_for_team_def example_upper
      example_registry_def example_workspaces_def init_def get_client_def Let_def
      example_remote_def LinearClient_def)


theorem resolve_team_cache_hit_witness:
  "resolve_client_for_team example_remote example_resolved ''FAVRES''
     = get_client example_resolved ''ios''
   \<and> calls (snd (resolve_client_for_team example_remote example_resolved ''FAVRES''))
     = calls example_resolved"
proof -
  have hit: "team_cache example_resolved (upper ''FAVRES'') = Some ''ios''"
    by (simp add: example_resolved_eq example_upper)
  show ?thesis
    by (rule resolve_team_cache_hit [OF hit])
qed

text \<open>
  C4. A \<^verbatim>\<open>LinearClientError\<close> never leaves \<open>resolve_client_for_team\<close>. On a cache
  miss, when the workspaces before \<open>w\<close> return no team or raise that error, the search
  goes on: the first lookups of the call are one on the client of each of them, in order,
  and then one on the client of \<open>w\<close>. When every configured workspace returns no team
  or raises that error, each is asked once, in order, and the call raises
  \<^verbatim>\<open>TeamNotFoundError\<close> with a message that lists the workspace names and points to
  \<^verbatim>\<open>linear_list_workspaces\<close>.
\<close>

theorem resolve_team_swallows_client_errors:
  "(\<forall>m. fst (resolve_client_for_team rem s k) \<noteq> Inl (LinearClientError m))
   \<and> (team_cache s (upper k) = None
        \<and> workspace_names s = before @ w # later
        \<and> (\<forall>w'\<in>set before. finds_no_team rem s w' (upper k))
      \<longrightarrow> (\<exists>r s' cs c more. resolve_client_for_team rem s k = (r, s')
             \<and> clients_of s' (before @ [w]) (cs @ [c])
             \<and> calls s' = calls s @ map (\<lambda>c'. GetTeamByKey c' (upper k)) (cs @ [c]) @ more))
   \<and> (team_cache s (upper k) = None
        \<and> (\<forall>w'\<in>set (workspace_names s). finds_no_team rem s w' (upper k))
      \<longrightarrow> (\<exists>s' cs. resolve_client_for_team rem s k =
               (Inl (TeamNotFoundError
                  (''Team '' @ quoted k @ '' not found in any workspace. ''
                   @ ''Searched workspaces: '' @ join '', '' (workspace_names s) @ ''. ''
                   @ ''Use linear_list_workspaces to see available teams.'')), s')
             \<and> clients_of s' (workspace_names s) cs
             \<and> calls s' = calls s @ map (\<lambda>c'. GetTeamByKey c' (upper k)) cs))"
proof (intro conjI impI allI)
  fix m
  show "fst (resolve_client_for_team rem s k) \<noteq> Inl (LinearClientError m)"
  proof (cases "team_cache s (upper k)")
    case (Some ws_name)
    then have "resolve_client_for_team rem s k = get_client s ws_name"
      by (simp add: resolve_client_for_team_def)
    then show ?thesis
      using get_client_Inl(2)[of s ws_name _ "snd (get_client s ws_name)"]
      by (cases "get_client s ws_name") auto
  next
    case None
    obtain r s' where p: "probe rem s (upper k) (workspace_names s) = (r, s')"
      by fastforce
    have "\<forall>m. r \<noteq> Inl (LinearClientError m)" using probe_props[OF p] by blast
    then show ?thesis
      using resolve_miss[OF None, of rem] p
      by (auto split: sum.splits option.splits)
  qed
next
  assume a: "team_cache s (upper k) = None \<and> workspace_names s = before @ w # later
     \<and> (\<forall>w'\<in>set before. finds_no_team rem s w' (upper k))"
  have conf: "\<forall>w'\<in>set (before @ w # later). map_of (workspaces s) w' \<noteq> None"
    using configured[of _ s] a by simp
  have pre: "\<forall>w'\<in>set before. map_of (workspaces s) w' \<noteq> None \<and> finds_no_team rem s w' (upper k)"
    using conf a by simp
  from probe_skips[OF pre, of "w # later"] obtain s1 cs where
    sk: "probe rem s (upper k) (before @ w # later) = probe rem s1 (upper k) (w # later)"
      "grows s s1" "clients_of s1 before cs"
      "calls s1 = calls s @ map (\<lambda>c. GetTeamByKey c (upper k)) cs"
    by blast
  obtain r0 s' where p: "probe rem s1 (upper k) (w # later) = (r0, s')" by fastforce
  have "map_of (workspaces s1) w \<noteq> None" using conf sk(2) by (simp add: grows_def)
  from probe_asks_first[OF p this] obtain c more where
    c: "map_of (clients s') w = Some c" "calls s' = calls s1 @ GetTeamByKey c (upper k) # more"
    by blast
  have "grows s1 s'" using probe_props[OF p] by blast
  then have cl: "clients_of s' (before @ [w]) (cs @ [c])"
    using clients_of_grows[OF sk(3)] c(1) by (simp add: clients_of_def list_all2_appendI)
  have ca: "calls s' = calls s @ map (\<lambda>c'. GetTeamByKey c' (upper k)) (cs @ [c]) @ more"
    using sk(4) c(2) by simp
  have "snd (resolve_client_for_team rem s k) = s'"
    using resolve_miss[of s k rem] a sk(1) p by (auto split: sum.splits option.splits)
  then have "resolve_client_for_team rem s k = (fst (resolve_client_for_team rem s k), s')"
    by (metis prod.collapse)
  with cl ca
  show "\<exists>r s' cs c more. resolve_client_for_team rem s k = (r, s')
          \<and> clients_of s' (before @ [w]) (cs @ [c])
          \<and> calls s' = calls s @ map (\<lambda>c'. GetTeamByKey c' (upper k)) (cs @ [c]) @ more"
    by blast
next
  assume a: "team_cache s (upper k) = None
     \<and> (\<forall>w'\<in>set (workspace_names s). finds_no_team rem s w' (upper k))"
  have "\<forall>w'\<in>set (workspace_names s). map_of (workspaces s) w' \<noteq> None
          \<and> finds_no_team rem s w' (upper k)"
    using configured[of _ s] a by simp
  from probe_exhausts[OF this] obtain s' cs where
    p: "probe rem s (upper k) (workspace_names s) = (Inr None, s')" "grows s s'"
      "clients_of s' (workspace_names s) cs"
      "calls s' = calls s @ map (\<lambda>c. GetTeamByKey c (upper k)) cs"
    by blast
  have "workspaces s' = workspaces s" using p(2) by (simp add: grows_def)
  then have "team_not_found s' k =
      ''Team '' @ quoted k @ '' not found in any workspace. ''
      @ ''Searched workspaces: '' @ join '', '' (workspace_names s) @ ''. ''
      @ ''Use linear_list_workspaces to see available teams.''"
    by (simp add: team_not_found_def workspace_names_def)
  then have "resolve_client_for_team rem s k =
      (Inl (TeamNotFoundError
         (''Team '' @ quoted k @ '' not found in any workspace. ''
          @ ''Searched workspaces: '' @ join '', '' (workspace_names s) @ ''. ''
          @ ''Use linear_list_workspaces to see available teams.'')), s')"
    using resolve_miss[of s k rem] a p(1) by simp
  with p(3,4)
  show "\<exists>s' cs. resolve_client_for_team rem s k =
               (Inl (TeamNotFoundError
                  (''Team '' @ quoted k @ '' not found in any workspace. ''
                   @ ''Searched workspaces: '' @ join '', '' (workspace_names s) @ ''. ''
                   @ ''Use linear_list_workspaces to see available teams.'')), s')
             \<and> clients_of s' (workspace_names s) cs
             \<and> calls s' = calls s @ map (\<lambda>c'. GetTeamByKey c' (upper k)) cs"
    by blast
qed

theorem resolve_team_swallows_client_errors_witness:
  "(\<forall>m. fst (resolve_client_for_team example_remote example_registry ''unknown'')
        \<noteq> Inl (LinearClientError m))
   \<and> (\<exists>r s' cs c more.
         resolve_client_for_team example_remote example_registry ''unknown'' = (r, s')
         \<and> clients_of s' [''ios'', ''backend''] (cs @ [c])
         \<and> calls s' = calls example_registry
               @ map (\<lambda>c'. GetTeamByKey c' ''UNKNOWN'') (cs @ [c]) @ more)
   \<and> (\<exists>s' cs. resolve_client_for_team example_remote example_registry ''unknown'' =
           (Inl (TeamNotFoundError
              (''Team '' @ quoted ''unknown'' @ '' not found in any workspace. ''
               @ ''Searched workspaces: ios, backend. ''
               @ ''Use linear_list_workspaces to see available teams.'')), s')
         \<and> clients_of s' [''ios'', ''backend''] cs
         \<and> calls s' = calls example_registry @ map (\<lambda>c'. GetTeamByKey c' ''UNKNOWN'') cs)"
proof -
  have miss: "team_cache example_registry (upper ''unknown'') = None"
    by (simp add: example_registry_def init_def)
  have order: "workspace_names example_registry = [''ios''] @ ''backend'' # []"
    by (simp add: example_names)
  have ios: "finds_no_team example_remote example_registry ''ios'' (upper ''unknown'')"
    using example_instances(1)
    by (simp add: finds_no_team_def example_upper example_remote_def)
  have backend: "finds_no_team example_remote example_registry ''backend'' (upper ''unknown'')"
    using example_instances(2)
    by (simp add: finds_no_team_def example_upper example_remote_def)
  have before: "\<forall>w'\<in>set [''ios''].
      finds_no_team example_remote example_registry w' (upper ''unknown'')"
    using ios by simp
  have every: "\<forall>w'\<in>set (workspace_names example_registry).
      finds_no_team example_remote example_registry w' (upper ''unknown'')"
    using ios backend by (simp add: example_names)
  show ?thesis
    using resolve_team_swallows_client_errors
      [of example_remote example_registry "''unknown''" "[''ios'']" "''backend''" "[]"]
      miss order before every
    by (simp add: example_upper example_names)
qed

subsection \<open>Reachable registries\<close>

lemma inv_calls [simp]: "registry_inv (s\<lparr>calls := x\<rparr>) = registry_inv s"
  by (simp add: registry_inv_def workspace_names_def)

lemma inv_init: "registry_inv (init ws url t)"
  by (simp add: registry_inv_def init_def)

lemma inv_calls_cache [simp]:
  "registry_inv (s\<lparr>calls := x, team_cache := m\<rparr>) = registry_inv (s\<lparr>team_cache := m\<rparr>)"
  by (simp add: registry_inv_def workspace_names_def)

lemma inv_new_client:
  assumes "registry_inv s"
  shows "registry_inv (s\<lparr>clients := clients s @ [(w, LinearClient (next_id s) key url t)],
                        next_id := Suc (next_id s)\<rparr>)"
proof -
  have below: "\<forall>c\<in>set (map snd (clients s)). c_id c < next_id s"
    and dist: "distinct (map (c_id \<circ> snd) (clients s))"
    using assms by (simp_all add: registry_inv_def)
  have "\<forall>c\<in>set (map snd (clients s)). c_id c < Suc (next_id s)"
    using below less_SucI by blast
  moreover have "next_id s \<notin> set (map (c_id \<circ> snd) (clients s))"
    using below by fastforce
  ultimately show ?thesis
    using assms dist by (simp add: registry_inv_def workspace_names_def LinearClient_def)
qed

lemma inv_get_client:
  assumes "get_client s w = (r, s')" "registry_inv s"
  shows "registry_inv s'"
proof (cases "map_of (workspaces s) w")
  case None
  then show ?thesis using assms by (simp add: get_client_def)
next
  case (Some key)
  show ?thesis
  proof (cases "map_of (clients s) w")
    case None
    then have "s' = s\<lparr>clients := clients s
          @ [(w, LinearClient (next_id s) key (api_url s) (timeout s))],
        next_id := Suc (next_id s)\<rparr>"
      using assms(1) Some by (simp add: get_client_new)
    then show ?thesis
      using inv_new_client[OF assms(2), of w key "api_url s" "timeout s"] by simp
  next
    case (Some c)
    then show ?thesis using assms \<open>map_of (workspaces s) w = Some key\<close>
      by (simp add: get_client_existing)
  qed
qed

lemma inv_cache_update:
  assumes "registry_inv s" "map_of (workspaces s) w \<noteq> None"
  shows "registry_inv (s\<lparr>team_cache := (team_cache s)(k \<mapsto> w)\<rparr>)"
proof -
  have "w \<in> set (workspace_names s)" using assms(2) by (simp add: configured)
  moreover have "ran ((team_cache s)(k \<mapsto> w)) \<subseteq> insert w (ran (team_cache s))"
    by (auto simp: ran_def)
  ultimately show ?thesis
    using assms(1) by (auto simp: registry_inv_def workspace_names_def)
qed

lemma inv_probe:
  "probe rem s k ws = (r, s') \<Longrightarrow> registry_inv s \<Longrightarrow> registry_inv s'"
proof (induction ws arbitrary: s)
  case Nil
  then show ?case by simp
next
  case (Cons w ws)
  from probe_Cons_cases[OF Cons.prems(1)]
  consider (raise) e where "get_client s w = (Inl e, s')"
    | (found) c s1 where "get_client s w = (Inr c, s1)"
        "s' = s1\<lparr>calls := calls s1 @ [GetTeamByKey c k],
                  team_cache := (team_cache s1)(k \<mapsto> w)\<rparr>"
    | (continue) c s1 where "get_client s w = (Inr c, s1)"
        "probe rem (s1\<lparr>calls := calls s1 @ [GetTeamByKey c k]\<rparr>) k ws = (r, s')"
    | (other) c s1 where "get_client s w = (Inr c, s1)"
        "s' = s1\<lparr>calls := calls s1 @ [GetTeamByKey c k]\<rparr>"
    by blast
  then show ?case
  proof cases
    case raise
    then show ?thesis using inv_get_client Cons.prems(2) by blast
  next
    case found
    have i1: "registry_inv s1" using inv_get_client[OF found(1) Cons.prems(2)] .
    have "map_of (workspaces s1) w \<noteq> None"
      using get_client_Inr(3)[OF found(1)] get_client_frame(1)[OF found(1)] by simp
    from inv_cache_update[OF i1 this, of k]
    show ?thesis by (simp add: found(2))
  next
    case continue
    have "registry_inv s1" using inv_get_client[OF continue(1) Cons.prems(2)] .
    then show ?thesis using Cons.IH[OF continue(2)] by simp
  next
    case other
    have "registry_inv s1" using inv_get_client[OF other(1) Cons.prems(2)] .
    then show ?thesis by (simp add: other(2))
  qed
qed

lemma inv_resolve_team:
  assumes "registry_inv s"
  shows "registry_inv (snd (resolve_client_for_team rem s k))"
proof (cases "team_cache s (upper k)")
  case (Some ws_name)
  then have "resolve_client_for_team rem s k = get_client s ws_name"
    by (simp add: resolve_client_for_team_def)
  then show ?thesis
    using inv_get_client[of s ws_name _ "snd (get_client s ws_name)"] assms
    by (metis prod.collapse)
next
  case None
  obtain r s' where p: "probe rem s (upper k) (workspace_names s) = (r, s')" by fastforce
  have "snd (resolve_client_for_team rem s k) = s'"
    using resolve_miss[OF None, of rem] p by (auto split: sum.splits option.splits)
  then show ?thesis using inv_probe[OF p assms] by simp
qed

lemma inv_resolve_issue:
  assumes "registry_inv s"
  shows "registry_inv (snd (resolve_client_for_issue rem s i))"
  using assms inv_resolve_team
  by (auto simp: resolve_client_for_issue_def split: option.splits)

lemma ran_cache_teams: "ran (cache_teams m w ts) \<subseteq> insert w (ran m)"
proof (induction ts arbitrary: m)
  case Nil
  then show ?case by auto
next
  case (Cons t ts)
  have "ran (m(upper (t_key t) \<mapsto> w)) \<subseteq> insert w (ran m)"
    by (auto simp: ran_def)
  moreover have "ran (cache_teams m w (t # ts))
      \<subseteq> insert w (ran (m(upper (t_key t) \<mapsto> w)))"
    using Cons.IH[of "m(upper (t_key t) \<mapsto> w)"] by (simp only: cache_teams.simps)
  ultimately show ?case by blast
qed

lemma inv_cache_teams:
  assumes "registry_inv s" "map_of (workspaces s) w \<noteq> None"
  shows "registry_inv (s\<lparr>team_cache := cache_teams (team_cache s) w ts\<rparr>)"
proof -
  have "w \<in> set (workspace_names s)" using assms(2) by (simp add: configured)
  then show ?thesis
    using assms(1) ran_cache_teams[of "team_cache s" w ts]
    by (auto simp: registry_inv_def workspace_names_def)
qed

lemma list_loop_Cons_cases:
  assumes "list_loop rem s (w # rest) acc = (r, s')"
  shows "(\<exists>e. get_client s w = (Inl e, s') \<and> r = Inl e)
     \<or> (\<exists>c s1. get_client s w = (Inr c, s1)
           \<and> ((\<exists>ts. list_teams rem (calls s1) c = Inr ts
                  \<and> list_loop rem
                       (s1\<lparr>calls := calls s1 @ [ListTeams c],
                           team_cache := cache_teams (team_cache s1) w ts\<rparr>) rest
                       (acc @ [\<lparr>e_workspace = w, e_error = None,
                                 e_teams = map team_entry ts\<rparr>]) = (r, s'))
              \<or> (\<exists>m. list_teams rem (calls s1) c = Inl (LinearClientError m)
                  \<and> list_loop rem (s1\<lparr>calls := calls s1 @ [ListTeams c]\<rparr>) rest
                       (acc @ [\<lparr>e_workspace = w, e_error = Some m, e_teams = []\<rparr>]) = (r, s'))
              \<or> (\<exists>e. r = Inl e \<and> s' = s1\<lparr>calls := calls s1 @ [ListTeams c]\<rparr>
                      \<and> list_teams rem (calls s1) c = Inl e
                      \<and> (\<forall>m. e \<noteq> LinearClientError m))))"
  using assms
  by (auto simp: Let_def split: prod.splits sum.splits error.splits)

lemma inv_list_loop:
  "list_loop rem s ws acc = (r, s') \<Longrightarrow> registry_inv s \<Longrightarrow> registry_inv s'"
proof (induction ws arbitrary: s acc)
  case Nil
  then show ?case by simp
next
  case (Cons w ws)
  from list_loop_Cons_cases[OF Cons.prems(1)]
  consider (raise) e where "get_client s w = (Inl e, s')"
    | (listed) c s1 ts where "get_client s w = (Inr c, s1)"
        "list_loop rem
           (s1\<lparr>calls := calls s1 @ [ListTeams c],
               team_cache := cache_teams (team_cache s1) w ts\<rparr>) ws
           (acc @ [\<lparr>e_workspace = w, e_error = None, e_teams = map team_entry ts\<rparr>]) = (r, s')"
    | (failed) c s1 m where "get_client s w = (Inr c, s1)"
        "list_loop rem (s1\<lparr>calls := calls s1 @ [ListTeams c]\<rparr>) ws
           (acc @ [\<lparr>e_workspace = w, e_error = Some m, e_teams = []\<rparr>]) = (r, s')"
    | (other) c s1 where "get_client s w = (Inr c, s1)"
        "s' = s1\<lparr>calls := calls s1 @ [ListTeams c]\<rparr>"
    by blast
  then show ?case
  proof cases
    case raise
    then show ?thesis using inv_get_client Cons.prems(2) by blast
  next
    case listed
    have i1: "registry_inv s1" using inv_get_client[OF listed(1) Cons.prems(2)] .
    have "map_of (workspaces s1) w \<noteq> None"
      using get_client_Inr(3)[OF listed(1)] get_client_frame(1)[OF listed(1)] by simp
    from inv_cache_teams[OF i1 this, of ts]
    have "registry_inv (s1\<lparr>calls := calls s1 @ [ListTeams c],
               team_cache := cache_teams (team_cache s1) w ts\<rparr>)"
      by simp
    then show ?thesis using Cons.IH[OF listed(2)] by simp
  next
    case failed
    have "registry_inv s1" using inv_get_client[OF failed(1) Cons.prems(2)] .
    then show ?thesis using Cons.IH[OF failed(2)] by simp
  next
    case other
    have "registry_inv s1" using inv_get_client[OF other(1) Cons.prems(2)] .
    then show ?thesis by (simp add: other(2))
  qed
qed

lemma inv_list_all:
  assumes "registry_inv s"
  shows "registry_inv (snd (list_all_workspaces_with_teams rem s))"
  using inv_list_loop[of rem s "map fst (workspaces s)" "[]" _
      "snd (list_all_workspaces_with_teams rem s)"] assms
  by (metis list_all_workspaces_with_teams_def prod.collapse)

lemma close_each_eq: "close_each s cs = s\<lparr>calls := calls s @ map Close cs\<rparr>"
  by (induction cs arbitrary: s) simp_all

lemma close_all_eq:
  "close_all s = s\<lparr>calls := calls s @ map Close (map snd (clients s)), clients := []\<rparr>"
  by (simp add: close_all_def close_each_eq)

lemma inv_close_all:
  assumes "registry_inv s"
  shows "registry_inv (close_all s)"
  using assms by (simp add: close_all_eq registry_inv_def workspace_names_def)

lemma reachable_inv: "reachable rem s \<Longrightarrow> registry_inv s"
proof (induction rule: reachable.induct)
  case (constructed ws url t)
  show ?case by (rule inv_init)
next
  case (after_get_client s w)
  then show ?case
    using inv_get_client[of s w "fst (get_client s w)" "snd (get_client s w)"] by simp
next
  case (after_resolve_team s k)
  then show ?case by (simp add: inv_resolve_team)
next
  case (after_resolve_issue s i)
  then show ?case by (simp add: inv_resolve_issue)
next
  case (after_list_all s)
  then show ?case by (simp add: inv_list_all)
next
  case (after_close_all s)
  then show ?case by (simp add: inv_close_all)
qed

text \<open>
  C6. In every registry that is constructed with an empty cache and then used through
  its public methods, each workspace name that the cache holds as a value is a
  configured workspace name.
\<close>

theorem cache_names_configured_workspaces:
  assumes "reachable rem s"
  shows "ran (team_cache s) \<subseteq> set (workspace_names s)"
  using reachable_inv[OF assms] by (simp add: registry_inv_def)

lemma example_reachable:
  "reachable example_remote example_registry"
  "reachable example_remote example_resolved"
  "reachable example_remote example_probed"
proof -
  show r: "reachable example_remote example_registry"
    unfolding example_registry_def
    by (rule reachable.constructed) (simp add: example_workspaces_def)
  show "reachable example_remote example_resolved"
    unfolding example_resolved_def by (rule reachable.after_resolve_team[OF r])
  show "reachable example_remote example_probed"
    unfolding example_probed_def by (rule reachable.after_resolve_team[OF r])
qed

theorem cache_names_configured_workspaces_witness:
  "ran (team_cache example_resolved) \<subseteq> set (workspace_names example_resolved)
   \<and> team_cache example_resolved ''FAVRES'' = Some ''ios''"
  using cache_names_configured_workspaces [OF example_reachable(2)]
  by (simp add: example_resolved_eq)

subsection \<open>\<^verbatim>\<open>close_all\<close>\<close>

lemma example_probed_eq:
  "example_probed =
     example_registry\<lparr>
       clients := [(''ios'', LinearClient 0 ''lin_api_ios'' ''https://api.linear.app/graphql'' 10),
                   (''backend'',
                    LinearClient 1 ''lin_api_backend'' ''https://api.linear.app/graphql'' 10)],
       team_cache := [''BACK'' \<mapsto> ''backend''],
       next_id := 2,
       calls := [GetTeamByKey (LinearClient 0 ''lin_api_ios'' ''https://api.linear.app/graphql'' 10)
                   ''BACK'',
                 GetTeamByKey
                   (LinearClient 1 ''lin_api_backend'' ''https://api.linear.app/graphql'' 10)
                   ''BACK'']\<rparr>"
  by (simp add: example_probed_def resolve_client_for_team_def example_upper
      example_registry_def example_workspaces_def init_def get_client_def Let_def
      example_remote_def LinearClient_def)

lemma held_clients_distinct:
  assumes "registry_inv s"
  shows "distinct (map snd (clients s))"
proof -
  have "distinct (map c_id (map snd (clients s)))"
    using assms by (simp add: registry_inv_def)
  then show ?thesis
    using distinct_map[of c_id "map snd (clients s)"] by blast
qed

lemma new_client_not_held:
  assumes "registry_inv s"
  shows "LinearClient (next_id s) key url t \<notin> set (map snd (clients s))"
proof
  assume "LinearClient (next_id s) key url t \<in> set (map snd (clients s))"
  then have "c_id (LinearClient (next_id s) key url t) < next_id s"
    using assms unfolding registry_inv_def by blast
  then show False by (simp add: LinearClient_def)
qed

lemma get_client_after_close_all:
  assumes "map_of (workspaces s) w = Some key"
  shows "get_client (close_all s) w =
    (Inr (LinearClient (next_id s) key (api_url s) (timeout s)),
     (close_all s)\<lparr>clients := [(w, LinearClient (next_id s) key (api_url s) (timeout s))],
                   next_id := Suc (next_id s)\<rparr>)"
proof -
  have "map_of (workspaces (close_all s)) w = Some key" "map_of (clients (close_all s)) w = None"
    using assms by (simp_all add: close_all_eq)
  from get_client_new[OF this] show ?thesis by (simp add: close_all_eq)
qed

text \<open>
  C9. \<open>close_all\<close> calls \<^verbatim>\<open>close\<close> on the clients that the registry holds, once
  each and in the order of their creation (the held clients are distinct objects), makes
  no other call, and leaves the client dictionary empty. With no client held it changes
  nothing. Afterwards \<open>get_client\<close> of a configured workspace succeeds and returns a
  newly constructed client, none of those just closed, the only one then held.
\<close>

theorem close_all_closes_each_once:
  assumes "reachable rem s"
  shows "calls (close_all s) = calls s @ map Close (map snd (clients s))
     \<and> distinct (map snd (clients s))
     \<and> clients (close_all s) = []
     \<and> (clients s = [] \<longrightarrow> close_all s = s)
     \<and> (\<forall>w\<in>set (workspace_names s). \<exists>c s'.
           get_client (close_all s) w = (Inr c, s')
           \<and> c \<notin> set (map snd (clients s)) \<and> clients s' = [(w, c)])"
proof (intro conjI impI ballI)
  have inv: "registry_inv s" by (rule reachable_inv[OF assms])
  show "calls (close_all s) = calls s @ map Close (map snd (clients s))"
    by (simp add: close_all_eq)
  show "distinct (map snd (clients s))" by (rule held_clients_distinct[OF inv])
  show "clients (close_all s) = []" by (simp add: close_all_eq)
  show "close_all s = s" if "clients s = []"
    using that by (simp add: close_all_eq)
  show "\<exists>c s'. get_client (close_all s) w = (Inr c, s')
           \<and> c \<notin> set (map snd (clients s)) \<and> clients s' = [(w, c)]"
    if "w \<in> set (workspace_names s)" for w
  proof -
    from that obtain key where key: "map_of (workspaces s) w = Some key"
      using configured[of w s] by auto
    show ?thesis
      using get_client_after_close_all[OF key]
        new_client_not_held[OF inv, of key "api_url s" "timeout s"]
      by simp
  qed
qed

theorem close_all_closes_each_once_witness:
  "calls (close_all example_probed) =
     calls example_probed
     @ [Close (LinearClient 0 ''lin_api_ios'' ''https://api.linear.app/graphql'' 10),
        Close (LinearClient 1 ''lin_api_backend'' ''https://api.linear.app/graphql'' 10)]
   \<and> distinct (map snd (clients example_probed))
   \<and> clients (close_all example_probed) = []
   \<and> close_all example_registry = example_registry
   \<and> (\<exists>c s'. get_client (close_all example_probed) ''ios'' = (Inr c, s')
         \<and> c \<notin> set (map snd (clients example_probed)) \<and> clients s' = [(''ios'', c)])"
proof -
  have names: "workspace_names example_probed = [''ios'', ''backend'']"
    by (simp add: example_probed_eq workspace_names_def example_registry_def
        example_workspaces_def init_def)
  have held: "map snd (clients example_probed) =
      [LinearClient 0 ''lin_api_ios'' ''https://api.linear.app/graphql'' 10,
       LinearClient 1 ''lin_api_backend'' ''https://api.linear.app/graphql'' 10]"
    by (simp add: example_probed_eq)
  have none: "clients example_registry = []"
    by (simp add: example_registry_def init_def)
  show ?thesis
    using close_all_closes_each_once [OF example_reachable(3)]
      close_all_closes_each_once [OF example_reachable(1)] none
    by (simp add: names held)
qed

lemma probe_found:
  "probe rem s k ws = (Inr (Some c), s') \<Longrightarrow>
     \<exists>w. team_cache s' k = Some w \<and> map_of (workspaces s') w \<noteq> None
         \<and> map_of (clients s') w = Some c"
proof (induction ws arbitrary: s)
  case Nil
  then show ?case by simp
next
  case (Cons w ws)
  from probe_Cons_cases[OF Cons.prems]
  consider (found) s1 where "get_client s w = (Inr c, s1)"
        "s' = s1\<lparr>calls := calls s1 @ [GetTeamByKey c k],
                  team_cache := (team_cache s1)(k \<mapsto> w)\<rparr>"
    | (continue) c0 s1 where
        "probe rem (s1\<lparr>calls := calls s1 @ [GetTeamByKey c0 k]\<rparr>) k ws = (Inr (Some c), s')"
    by auto
  then show ?case
  proof cases
    case found
    have "map_of (workspaces s1) w \<noteq> None" "map_of (clients s1) w = Some c"
      using get_client_Inr(1,3)[OF found(1)] get_client_frame(1)[OF found(1)] by simp_all
    then show ?thesis by (simp add: found(2))
  next
    case continue
    then show ?thesis by (rule Cons.IH)
  qed
qed

lemma resolve_team_Inr:
  assumes "resolve_client_for_team rem s k = (Inr c, s1)"
  shows "\<exists>w. team_cache s1 (upper k) = Some w \<and> map_of (workspaces s1) w \<noteq> None
           \<and> map_of (clients s1) w = Some c"
proof (cases "team_cache s (upper k)")
  case (Some w)
  then have g: "get_client s w = (Inr c, s1)"
    using assms by (simp add: resolve_client_for_team_def)
  have "team_cache s1 (upper k) = Some w" "map_of (workspaces s1) w \<noteq> None"
    "map_of (clients s1) w = Some c"
    using get_client_Inr(1,3)[OF g] get_client_frame(1,4)[OF g] Some by simp_all
  then show ?thesis by blast
next
  case None
  obtain r s' where p: "probe rem s (upper k) (workspace_names s) = (r, s')" by fastforce
  then have "r = Inr (Some c)" "s' = s1"
    using resolve_miss[OF None, of rem] assms by (auto split: sum.splits option.splits)
  with p show ?thesis using probe_found by blast
qed

text \<open>
  C10. \<open>close_all\<close> leaves the configured workspaces, the endpoint, the timeout and the
  team cache as they are (and uses up no client identity). So after a key was resolved
  and \<open>close_all\<close> was called, resolving the key again succeeds without any call on a
  client, and the client it returns is newly constructed: it is not the client returned
  before and none of the clients that were closed.
\<close>

theorem close_all_keeps_cache:
  assumes reach: "reachable rem s"
    and res: "resolve_client_for_team rem s k = (Inr c, s1)"
  shows "workspaces (close_all s0) = workspaces s0 \<and> api_url (close_all s0) = api_url s0
     \<and> timeout (close_all s0) = timeout s0 \<and> team_cache (close_all s0) = team_cache s0
     \<and> next_id (close_all s0) = next_id s0
     \<and> (\<exists>c' s2. resolve_client_for_team rem (close_all s1) k = (Inr c', s2)
           \<and> calls s2 = calls (close_all s1)
           \<and> team_cache s2 = team_cache s1
           \<and> c_id c' = next_id s1 \<and> next_id s2 = Suc (next_id s1)
           \<and> c' \<notin> set (map snd (clients s1)) \<and> c' \<noteq> c)"
proof -
  have frame: "workspaces (close_all s0) = workspaces s0 \<and> api_url (close_all s0) = api_url s0
     \<and> timeout (close_all s0) = timeout s0 \<and> team_cache (close_all s0) = team_cache s0
     \<and> next_id (close_all s0) = next_id s0"
    by (simp add: close_all_eq)
  have "registry_inv s" by (rule reachable_inv[OF reach])
  then have inv1: "registry_inv s1"
    using inv_resolve_team[of s rem k] res by simp
  from resolve_team_Inr[OF res] obtain w key where
    w: "team_cache s1 (upper k) = Some w" "map_of (workspaces s1) w = Some key"
      "map_of (clients s1) w = Some c"
    by auto
  define c' where "c' = LinearClient (next_id s1) key (api_url s1) (timeout s1)"
  define s2 where "s2 = (close_all s1)\<lparr>clients := [(w, c')], next_id := Suc (next_id s1)\<rparr>"
  have "team_cache (close_all s1) (upper k) = Some w"
    using w(1) by (simp add: close_all_eq)
  then have "resolve_client_for_team rem (close_all s1) k = get_client (close_all s1) w"
    by (simp add: resolve_client_for_team_def)
  then have r: "resolve_client_for_team rem (close_all s1) k = (Inr c', s2)"
    using get_client_after_close_all[OF w(2)] by (simp add: c'_def s2_def)
  have new: "c' \<notin> set (map snd (clients s1))"
    unfolding c'_def by (rule new_client_not_held[OF inv1])
  have "c \<in> set (map snd (clients s1))"
    using map_of_SomeD[OF w(3)] by force
  with new have "c' \<noteq> c" by blast
  moreover have "calls s2 = calls (close_all s1)" "team_cache s2 = team_cache s1"
    "next_id s2 = Suc (next_id s1)"
    by (simp_all add: s2_def close_all_eq)
  moreover have "c_id c' = next_id s1" by (simp add: c'_def LinearClient_def)
  ultimately show ?thesis using frame r new by blast
qed

theorem close_all_keeps_cache_witness:
  "team_cache (close_all example_resolved) = team_cache example_resolved
   \<and> (\<exists>c' s2. resolve_client_for_team example_remote (close_all example_resolved) ''favres''
           = (Inr c', s2)
         \<and> calls s2 = calls (close_all example_resolved)
         \<and> team_cache s2 = team_cache example_resolved
         \<and> c_id c' = next_id example_resolved \<and> next_id s2 = Suc (next_id example_resolved)
         \<and> c' \<notin> set (map snd (clients example_resolved))
         \<and> c' \<noteq> LinearClient 0 ''lin_api_ios'' ''https://api.linear.app/graphql'' 10)"
proof -
  have res: "resolve_client_for_team example_remote example_registry ''favres'' =
      (Inr (LinearClient 0 ''lin_api_ios'' ''https://api.linear.app/graphql'' 10),
       example_resolved)"
    unfolding example_resolved_def
    by (simp add: resolve_client_for_team_def example_upper
      example_registry_def example_workspaces_def init_def get_client_def Let_def
      example_remote_def LinearClient_def)
  show ?thesis
    using close_all_keeps_cache [OF example_reachable(1) res, of example_resolved]
    by simp
qed

subsection \<open>\<^verbatim>\<open>resolve_client_for_issue\<close>\<close>

text \<open>
  What \<open>re_match\<close> accepts, as a language: a non-empty run of letters, a dash, a
  non-empty run of digits, and then the end of the string or one newline before it.
\<close>

lemma not_letter_dash: "\<not> is_letter CHR ''-''"
  by (simp add: is_letter_def)

lemma not_digit_newline: "\<not> is_digit newline"
  by (simp add: is_digit_def newline_def)

lemma re_match_iff:
  "re_match identifier = Some (g1, g2) \<longleftrightarrow>
     g1 \<noteq> [] \<and> list_all is_letter g1 \<and> g2 \<noteq> [] \<and> list_all is_digit g2
     \<and> (identifier = g1 @ ''-'' @ g2 \<or> identifier = g1 @ ''-'' @ g2 @ [newline])"
proof
  assume m: "re_match identifier = Some (g1, g2)"
  define after1 where "after1 = dropWhile is_letter identifier"
  from m have g1: "g1 = takeWhile is_letter identifier" "g1 \<noteq> []"
    by (auto simp: re_match_def Let_def split: if_splits list.splits)
  from m obtain after_dash where ad: "after1 = CHR ''-'' # after_dash"
    by (auto simp: re_match_def Let_def after1_def split: if_splits list.splits)
  from m ad have g2: "g2 = takeWhile is_digit after_dash" "g2 \<noteq> []"
    and rest: "at_dollar (dropWhile is_digit after_dash)"
    by (auto simp: re_match_def Let_def after1_def split: if_splits list.splits)
  have "identifier = g1 @ after1"
    by (simp add: g1 after1_def)
  moreover have "after_dash = g2 @ dropWhile is_digit after_dash"
    by (simp add: g2)
  ultimately have "identifier = g1 @ ''-'' @ g2 @ dropWhile is_digit after_dash"
    using ad by simp
  moreover have "list_all is_letter g1" "list_all is_digit g2"
    unfolding g1 g2 list_all_iff by (auto dest: set_takeWhileD)
  ultimately show "g1 \<noteq> [] \<and> list_all is_letter g1 \<and> g2 \<noteq> [] \<and> list_all is_digit g2
     \<and> (identifier = g1 @ ''-'' @ g2 \<or> identifier = g1 @ ''-'' @ g2 @ [newline])"
    using g1(2) g2(2) rest by (auto simp: at_dollar_def)
next
  assume a: "g1 \<noteq> [] \<and> list_all is_letter g1 \<and> g2 \<noteq> [] \<and> list_all is_digit g2
     \<and> (identifier = g1 @ ''-'' @ g2 \<or> identifier = g1 @ ''-'' @ g2 @ [newline])"
  then obtain rest where id: "identifier = g1 @ CHR ''-'' # g2 @ rest"
    and rest: "rest = [] \<or> rest = [newline]"
    by auto
  have l: "\<And>x. x \<in> set g1 \<Longrightarrow> is_letter x" and d: "\<And>x. x \<in> set g2 \<Longrightarrow> is_digit x"
    using a by (simp_all add: list_all_iff)
  have t1: "takeWhile is_letter identifier = g1"
    unfolding id using l not_letter_dash by (simp add: takeWhile_tail)
  have d1: "dropWhile is_letter identifier = CHR ''-'' # g2 @ rest"
    unfolding id using l not_letter_dash by (simp add: dropWhile_append3)
  have t2: "takeWhile is_digit (g2 @ rest) = g2"
    using rest d not_digit_newline by (auto simp: takeWhile_tail)
  have d2: "dropWhile is_digit (g2 @ rest) = rest"
    using rest d not_digit_newline by (auto simp: dropWhile_append3)
  show "re_match identifier = Some (g1, g2)"
    using a rest by (simp add: re_match_def t1 d1 t2 d2 at_dollar_def)
qed

lemma resolve_issue_cases:
  "re_match identifier = None \<Longrightarrow>
     resolve_client_for_issue rem s identifier = (Inl (ValueError (invalid_format identifier)), s)"
  "re_match identifier = Some (g1, g2) \<Longrightarrow>
     resolve_client_for_issue rem s identifier = resolve_client_for_team rem s g1"
  by (simp_all add: resolve_client_for_issue_def)

text \<open>
  C5 fails on the code. The identifier \<^verbatim>\<open>"FAVRES-123\\n"\<close> is not of the form
  letters, dash, digits: a newline follows the digits. The claim has it rejected with
  \<^verbatim>\<open>ValueError\<close> before any resolution. The code accepts it, since \<^verbatim>\<open>$\<close> also
  holds before a final newline, resolves the team FAVRES, asks the client of
  \<^verbatim>\<open>ios\<close> and returns it.
\<close>

theorem resolve_issue_accepts_trailing_newline:
  "re_match (''FAVRES-123'' @ [newline]) = Some (''FAVRES'', ''123'')
   \<and> resolve_client_for_issue example_remote example_registry (''FAVRES-123'' @ [newline])
       = resolve_client_for_team example_remote example_registry ''FAVRES''
   \<and> fst (resolve_client_for_issue example_remote example_registry (''FAVRES-123'' @ [newline]))
       = Inr (LinearClient 0 ''lin_api_ios'' ''https://api.linear.app/graphql'' 10)
   \<and> calls (snd (resolve_client_for_issue example_remote example_registry
                     (''FAVRES-123'' @ [newline])))
       = [GetTeamByKey (LinearClient 0 ''lin_api_ios'' ''https://api.linear.app/graphql'' 10)
            ''FAVRES'']"
proof -
  have m: "re_match (''FAVRES-123'' @ [newline]) = Some (''FAVRES'', ''123'')"
    by (simp add: re_match_iff is_letter_def is_digit_def)
  have r: "resolve_client_for_team example_remote example_registry ''FAVRES'' =
      (Inr (LinearClient 0 ''lin_api_ios'' ''https://api.linear.app/graphql'' 10),
       example_resolved)"
    by (simp add: example_resolved_eq resolve_client_for_team_def example_upper
      example_registry_def example_workspaces_def init_def get_client_def Let_def
      example_remote_def LinearClient_def)
  have i: "resolve_client_for_issue example_remote example_registry (''FAVRES-123'' @ [newline])
       = resolve_client_for_team example_remote example_registry ''FAVRES''"
    unfolding resolve_client_for_issue_def m by simp
  show ?thesis
    using m i r by (simp add: example_resolved_eq)
qed

subsection \<open>\<^verbatim>\<open>list_all_workspaces_with_teams\<close>\<close>








subsection \<open>The cache is an optimisation\<close>

lemma cache_apart_get_client:
  assumes "get_client s w = (r, s1)" "cache_apart s t"
  shows "\<exists>t1. get_client t w = (r, t1) \<and> cache_apart s1 t1"
  using assms
  by (auto simp: get_client_def Let_def cache_apart_def split: option.splits)

lemma cache_apart_probe:
  "probe rem s k ws = (r, s') \<Longrightarrow> cache_apart s t \<Longrightarrow>
     \<exists>t'. probe rem t k ws = (r, t') \<and> cache_apart s' t'"
proof (induction ws arbitrary: s t)
  case Nil
  then show ?case by simp
next
  case (Cons w ws)
  obtain g s1 where g: "get_client s w = (g, s1)" by fastforce
  from cache_apart_get_client[OF g Cons.prems(2)] obtain t1 where
    t1: "get_client t w = (g, t1)" "cache_apart s1 t1"
    by blast
  show ?case
  proof (cases g)
    case (Inl e)
    then show ?thesis using Cons.prems(1) g t1 by simp
  next
    case (Inr c)
    have calls1: "calls t1 = calls s1" using t1(2) by (simp add: cache_apart_def)
    define s2 where "s2 = s1\<lparr>calls := calls s1 @ [GetTeamByKey c k]\<rparr>"
    define t2 where "t2 = t1\<lparr>calls := calls t1 @ [GetTeamByKey c k]\<rparr>"
    have a2: "cache_apart s2 t2"
      using t1(2) by (simp add: cache_apart_def s2_def t2_def)
    have a3: "cache_apart (s2\<lparr>team_cache := x\<rparr>) (t2\<lparr>team_cache := y\<rparr>)" for x y
      using a2 by (simp add: cache_apart_def)
    from probe_Cons_cases[OF Cons.prems(1)] g Inr
    consider (found) "r = Inr (Some c)" "s' = s2\<lparr>team_cache := (team_cache s1)(k \<mapsto> w)\<rparr>"
        "\<exists>tm. get_team_by_key rem (calls s1) c k = Inr (Some tm)"
      | (continue) "probe rem s2 k ws = (r, s')"
        "get_team_by_key rem (calls s1) c k = Inr None
         \<or> (\<exists>m. get_team_by_key rem (calls s1) c k = Inl (LinearClientError m))"
      | (other) e where "r = Inl e" "s' = s2" "get_team_by_key rem (calls s1) c k = Inl e"
        "\<forall>m. e \<noteq> LinearClientError m"
      using Cons.prems(1)
      by (auto simp: s2_def Let_def split: sum.splits option.splits error.splits)
    then show ?thesis
    proof cases
      case found
      then obtain tm where "get_team_by_key rem (calls t1) c k = Inr (Some tm)"
        using calls1 by auto
      from probe_step_found[OF t1(1)[unfolded Inr] this, of ws]
      have "probe rem t k (w # ws) = (Inr (Some c), t2\<lparr>team_cache := (team_cache t1)(k \<mapsto> w)\<rparr>)"
        by (simp add: t2_def)
      then show ?thesis using found(1,2) a3 by auto
    next
      case continue
      have "probe rem t k (w # ws) = probe rem t2 k ws"
        using probe_step_skip[OF t1(1)[unfolded Inr], of rem k ws] continue(2) calls1
        by (simp add: t2_def)
      then show ?thesis using Cons.IH[OF continue(1) a2] by simp
    next
      case other
      have "probe rem t k (w # ws) = (Inl e, t2)"
        using t1(1) Inr other(3,4) calls1
        by (cases e) (simp_all add: t2_def Let_def)
      then show ?thesis using other(1,2) a2 by simp
    qed
  qed
qed

lemma client_instance_cache [simp]:
  "client_instance (s\<lparr>team_cache := m\<rparr>) w c = client_instance s w c"
  by (simp add: client_instance_def cong: option.case_cong)

lemma instances_alike:
  assumes "client_instance s w c1" "client_instance s w c2"
  shows "c_api_key c1 = c_api_key c2 \<and> c_api_url c1 = c_api_url c2
     \<and> c_timeout c1 = c_timeout c2 \<and> (map_of (clients s) w \<noteq> None \<longrightarrow> c1 = c2)"
  using assms by (auto simp: client_instance_def LinearClient_def split: option.splits)

lemma held_is_instance:
  "map_of (clients s) w = Some c \<Longrightarrow> client_instance s w c"
  by (simp add: client_instance_def)

text \<open>
  C3, amended. Take a key whose cache entry, if there is one, names a configured
  workspace that returns a team for it, and let at most one configured workspace return
  a team for the key. Let moreover every configured workspace either return a team for
  the key or find none, that is, answer \<^verbatim>\<open>None\<close> or raise \<^verbatim>\<open>LinearClientError\<close>
  and no other exception: this is the condition that the claim leaves out. Then
  \<open>resolve_client_for_team\<close> has the same result from this registry and from the
  registry with its cache emptied. Only the entry of the key itself is needed, which the
  condition on every entry of the cache implies.
\<close>

theorem cache_only_saves_lookups:
  assumes valid: "\<forall>w. team_cache s (upper k) = Some w \<longrightarrow>
        w \<in> set (workspace_names s) \<and> returns_team rem s w (upper k)"
    and answers: "\<forall>w\<in>set (workspace_names s).
        returns_team rem s w (upper k) \<or> finds_no_team rem s w (upper k)"
    and unique: "\<forall>w1\<in>set (workspace_names s). \<forall>w2\<in>set (workspace_names s).
        returns_team rem s w1 (upper k) \<longrightarrow> returns_team rem s w2 (upper k) \<longrightarrow> w1 = w2"
  shows "same_resolution s (resolve_client_for_team rem s k)
           (resolve_client_for_team rem (s\<lparr>team_cache := Map.empty\<rparr>) k)"
proof (cases "team_cache s (upper k)")
  case None
  define s0 where "s0 = s\<lparr>team_cache := Map.empty\<rparr>"
  have apart: "cache_apart s s0" by (simp add: cache_apart_def s0_def)
  have miss0: "team_cache s0 (upper k) = None" by (simp add: s0_def)
  have names0: "workspace_names s0 = workspace_names s"
    by (simp add: workspace_names_def s0_def)
  obtain r s' where p: "probe rem s (upper k) (workspace_names s) = (r, s')" by fastforce
  from cache_apart_probe[OF p apart] obtain t' where
    p0: "probe rem s0 (upper k) (workspace_names s) = (r, t')" "cache_apart s' t'"
    by blast
  have same_ws: "workspaces t' = workspaces s'" "clients t' = clients s'"
    using p0(2) by (simp_all add: cache_apart_def)
  then have msg: "team_not_found t' k = team_not_found s' k"
    by (simp add: team_not_found_def)
  have ra: "resolve_client_for_team rem s k =
      (case r of Inl e \<Rightarrow> (Inl e, s') | Inr None \<Rightarrow> (Inl (TeamNotFoundError (team_not_found s' k)), s')
       | Inr (Some c) \<Rightarrow> (Inr c, s'))"
    using resolve_miss[OF None, of rem] p by (simp split: sum.splits option.splits)
  have rb: "resolve_client_for_team rem s0 k =
      (case r of Inl e \<Rightarrow> (Inl e, t') | Inr None \<Rightarrow> (Inl (TeamNotFoundError (team_not_found s' k)), t')
       | Inr (Some c) \<Rightarrow> (Inr c, t'))"
    using resolve_miss[OF miss0, of rem] p0(1) names0 msg
    by (simp split: sum.splits option.splits)
  show ?thesis
  proof (cases r)
    case (Inl e)
    then show ?thesis using ra rb by (simp add: same_resolution_def s0_def)
  next
    case (Inr found)
    show ?thesis
    proof (cases found)
      case None
      then show ?thesis using ra rb Inr by (simp add: same_resolution_def s0_def)
    next
      case (Some c)
      then have "resolve_client_for_team rem s k = (Inr c, s')" using ra Inr by simp
      from resolve_team_Inr[OF this] obtain w where "map_of (clients s') w = Some c" by blast
      then show ?thesis
        using ra rb Inr Some same_ws(2) by (auto simp: same_resolution_def s0_def)
    qed
  qed
next
  case (Some w)
  define s0 where "s0 = s\<lparr>team_cache := Map.empty\<rparr>"
  have w: "w \<in> set (workspace_names s)" "returns_team rem s w (upper k)"
    using valid Some by simp_all
  then obtain key where key: "map_of (workspaces s) w = Some key"
    using configured[of w s] by auto
  then obtain c1 sa where g: "get_client s w = (Inr c1, sa)"
    using get_client_configured by blast
  have ra: "resolve_client_for_team rem s k = (Inr c1, sa)"
    using Some g by (simp add: resolve_client_for_team_def)
  have i1: "client_instance s w c1" "map_of (clients sa) w = Some c1"
    using get_client_Inr(1,2)[OF g] by simp_all
  from split_list_first[OF w(1)] obtain before later where
    order: "workspace_names s = before @ w # later" "w \<notin> set before"
    by blast
  have none_before: "finds_no_team rem s w' (upper k)" if "w' \<in> set before" for w'
  proof -
    have in_names: "w' \<in> set (workspace_names s)" using that order(1) by simp
    have "w' \<noteq> w" using that order(2) by auto
    then have "\<not> returns_team rem s w' (upper k)"
      using unique in_names w by blast
    then show ?thesis using answers in_names by blast
  qed
  have names0: "workspace_names s0 = workspace_names s"
    by (simp add: workspace_names_def s0_def)
  have conf0: "\<forall>w'\<in>set (before @ w # later). map_of (workspaces s0) w' \<noteq> None"
    using configured[of _ s0] order(1) names0 by simp
  have pre: "\<forall>w'\<in>set before. map_of (workspaces s0) w' \<noteq> None
      \<and> finds_no_team rem s0 w' (upper k)"
    using conf0 none_before by (simp add: finds_no_team_def s0_def)
  have cw: "map_of (workspaces s0) w \<noteq> None" using conf0 by simp
  have team0: "returns_team rem s0 w (upper k)"
    using w(2) by (simp add: returns_team_def s0_def)
  from probe_finds[OF pre cw team0, of later] obtain c2 sb cs where
    p: "probe rem s0 (upper k) (before @ w # later) = (Inr (Some c2), sb)"
      "grows s0 sb" "clients_of sb (before @ [w]) (cs @ [c2])"
    by blast
  have miss0: "team_cache s0 (upper k) = None" by (simp add: s0_def)
  have rb: "resolve_client_for_team rem s0 k = (Inr c2, sb)"
    using resolve_miss[OF miss0, of rem] p(1) order(1) names0 by simp
  have held: "map_of (clients sb) w = Some c2"
    using p(3) by (auto simp: clients_of_def list_all2_append2 list_all2_Cons2)
  then have "client_instance sb w c2" by (rule held_is_instance)
  then have "client_instance s0 w c2" using p(2) by (simp add: grows_def)
  then have i2: "client_instance s w c2" by (simp add: s0_def)
  show ?thesis
    unfolding same_resolution_def s0_def[symmetric]
    using ra rb i1(2) held instances_alike[OF i1(1) i2] by auto
qed

lemma example_closed_eq:
  "example_closed =
     example_registry\<lparr>
       clients := [],
       team_cache := [''BACK'' \<mapsto> ''backend''],
       next_id := 2,
       calls := [GetTeamByKey (LinearClient 0 ''lin_api_ios'' ''https://api.linear.app/graphql'' 10)
                   ''BACK'',
                 GetTeamByKey
                   (LinearClient 1 ''lin_api_backend'' ''https://api.linear.app/graphql'' 10)
                   ''BACK'',
                 Close (LinearClient 0 ''lin_api_ios'' ''https://api.linear.app/graphql'' 10),
                 Close (LinearClient 1 ''lin_api_backend'' ''https://api.linear.app/graphql'' 10)]\<rparr>"
  by (simp add: example_closed_def close_all_eq example_probed_eq)

lemma example_closed_instances:
  "client_instance example_closed ''ios'' c \<longleftrightarrow>
     (\<exists>i. c = LinearClient i ''lin_api_ios'' ''https://api.linear.app/graphql'' 10)"
  "client_instance example_closed ''backend'' c \<longleftrightarrow>
     (\<exists>i. c = LinearClient i ''lin_api_backend'' ''https://api.linear.app/graphql'' 10)"
  by (auto simp: client_instance_def example_closed_eq example_registry_def
      example_workspaces_def init_def)

theorem cache_only_saves_lookups_witness:
  "same_resolution example_closed
     (resolve_client_for_team example_remote example_closed ''back'')
     (resolve_client_for_team example_remote (example_closed\<lparr>team_cache := Map.empty\<rparr>) ''back'')
   \<and> fst (resolve_client_for_team example_remote example_closed ''back'')
       = Inr (LinearClient 2 ''lin_api_backend'' ''https://api.linear.app/graphql'' 10)
   \<and> fst (resolve_client_for_team example_remote (example_closed\<lparr>team_cache := Map.empty\<rparr>)
            ''back'')
       = Inr (LinearClient 3 ''lin_api_backend'' ''https://api.linear.app/graphql'' 10)"
proof -
  have names: "workspace_names example_closed = [''ios'', ''backend'']"
    by (simp add: example_closed_eq workspace_names_def example_registry_def
        example_workspaces_def init_def)
  have ios_key: "c_api_key c = ''lin_api_ios''" if "client_instance example_closed ''ios'' c" for c
    using that by (auto simp: example_closed_instances LinearClient_def)
  have backend_key: "c_api_key c = ''lin_api_backend''"
    if "client_instance example_closed ''backend'' c" for c
    using that by (auto simp: example_closed_instances LinearClient_def)
  have ios_no: "finds_no_team example_remote example_closed ''ios'' ''BACK''"
    using ios_key by (simp add: finds_no_team_def example_remote_def)
  have "client_instance example_closed ''ios''
      (LinearClient 0 ''lin_api_ios'' ''https://api.linear.app/graphql'' 10)"
    unfolding example_closed_instances by blast
  moreover have "get_team_by_key example_remote []
      (LinearClient 0 ''lin_api_ios'' ''https://api.linear.app/graphql'' 10) ''BACK''
      = Inl (LinearClientError ''rate limited'')"
    by (simp add: example_remote_def LinearClient_def)
  ultimately have ios_not: "\<not> returns_team example_remote example_closed ''ios'' ''BACK''"
    unfolding returns_team_def by (metis Inl_Inr_False)
  note ios = ios_no ios_not
  have backend: "returns_team example_remote example_closed ''backend'' ''BACK''"
    using backend_key by (simp add: returns_team_def example_remote_def)
  have valid: "\<forall>w. team_cache example_closed (upper ''back'') = Some w \<longrightarrow>
        w \<in> set (workspace_names example_closed)
        \<and> returns_team example_remote example_closed w (upper ''back'')"
    using backend by (simp add: example_upper names) (simp add: example_closed_eq)
  have answers: "\<forall>w\<in>set (workspace_names example_closed).
        returns_team example_remote example_closed w (upper ''back'')
        \<or> finds_no_team example_remote example_closed w (upper ''back'')"
    using ios(1) backend by (simp add: example_upper names)
  have unique: "\<forall>w1\<in>set (workspace_names example_closed).
      \<forall>w2\<in>set (workspace_names example_closed).
        returns_team example_remote example_closed w1 (upper ''back'') \<longrightarrow>
        returns_team example_remote example_closed w2 (upper ''back'') \<longrightarrow> w1 = w2"
    using ios(2) by (simp add: example_upper names)
  have a: "fst (resolve_client_for_team example_remote example_closed ''back'')
       = Inr (LinearClient 2 ''lin_api_backend'' ''https://api.linear.app/graphql'' 10)"
    by (simp add: resolve_client_for_team_def example_upper example_closed_eq
      example_registry_def example_workspaces_def init_def get_client_def Let_def
      example_remote_def LinearClient_def)
  have b: "fst (resolve_client_for_team example_remote
                  (example_closed\<lparr>team_cache := Map.empty\<rparr>) ''back'')
       = Inr (LinearClient 3 ''lin_api_backend'' ''https://api.linear.app/graphql'' 10)"
    by (simp add: resolve_client_for_team_def example_upper example_closed_eq
      example_registry_def example_workspaces_def init_def get_client_def Let_def
      example_remote_def LinearClient_def)
  show ?thesis
    using cache_only_saves_lookups [OF valid answers unique] a b by simp
qed

lemma broken_listed_eq:
  "broken_listed =
     example_registry\<lparr>
       clients := [(''ios'', LinearClient 0 ''lin_api_ios'' ''https://api.linear.app/graphql'' 10),
                   (''backend'',
                    LinearClient 1 ''lin_api_backend'' ''https://api.linear.app/graphql'' 10)],
       team_cache := [''BACK'' \<mapsto> ''backend''],
       next_id := 2,
       calls := [ListTeams (LinearClient 0 ''lin_api_ios'' ''https://api.linear.app/graphql'' 10),
                 ListTeams
                   (LinearClient 1 ''lin_api_backend'' ''https://api.linear.app/graphql'' 10)]\<rparr>"
  by (simp add: broken_listed_def list_all_workspaces_with_teams_def
      example_registry_def example_workspaces_def init_def get_client_def Let_def
      broken_remote_def LinearClient_def team_back_def upper_def upper_char_def)

text \<open>
  C3 as it is worded fails. In the registry below, reached by listing all workspaces,
  the only cache entry maps BACK to \<^verbatim>\<open>backend\<close>, which returns a team for BACK, and
  no other workspace returns one. With the cache the call returns the client of
  \<^verbatim>\<open>backend\<close> without asking anyone. With the cache emptied the search asks
  \<^verbatim>\<open>ios\<close> first, whose lookup raises an exception that is no
  \<^verbatim>\<open>LinearClientError\<close>; the handler of the loop does not catch it, and the call
  raises it.
\<close>

theorem cache_only_saves_lookups_counterexample:
  "reachable broken_remote broken_listed
   \<and> workspace_names broken_listed = [''ios'', ''backend'']
   \<and> team_cache broken_listed = [''BACK'' \<mapsto> ''backend'']
   \<and> returns_team broken_remote broken_listed ''backend'' ''BACK''
   \<and> \<not> returns_team broken_remote broken_listed ''ios'' ''BACK''
   \<and> fst (resolve_client_for_team broken_remote broken_listed ''back'')
       = Inr (LinearClient 1 ''lin_api_backend'' ''https://api.linear.app/graphql'' 10)
   \<and> fst (resolve_client_for_team broken_remote (broken_listed\<lparr>team_cache := Map.empty\<rparr>)
            ''back'')
       = Inl (OtherException ''boom'')
   \<and> \<not> same_resolution broken_listed
         (resolve_client_for_team broken_remote broken_listed ''back'')
         (resolve_client_for_team broken_remote (broken_listed\<lparr>team_cache := Map.empty\<rparr>)
            ''back'')"
proof -
  have "reachable broken_remote example_registry"
    unfolding example_registry_def
    by (rule reachable.constructed) (simp add: example_workspaces_def)
  then have reach: "reachable broken_remote broken_listed"
    unfolding broken_listed_def by (rule reachable.after_list_all)
  have names: "workspace_names broken_listed = [''ios'', ''backend'']"
    by (simp add: broken_listed_eq workspace_names_def example_registry_def
        example_workspaces_def init_def)
  have cache: "team_cache broken_listed = [''BACK'' \<mapsto> ''backend'']"
    by (simp add: broken_listed_eq)
  have held: "client_instance broken_listed ''ios'' c \<longleftrightarrow>
        c = LinearClient 0 ''lin_api_ios'' ''https://api.linear.app/graphql'' 10"
      "client_instance broken_listed ''backend'' c \<longleftrightarrow>
        c = LinearClient 1 ''lin_api_backend'' ''https://api.linear.app/graphql'' 10" for c
    by (auto simp: client_instance_def broken_listed_eq)
  have owner: "returns_team broken_remote broken_listed ''backend'' ''BACK''"
    by (simp add: returns_team_def held broken_remote_def LinearClient_def)
  have other: "\<not> returns_team broken_remote broken_listed ''ios'' ''BACK''"
    by (simp add: returns_team_def held broken_remote_def LinearClient_def)
  have u: "upper ''back'' = ''BACK''"
    by (simp add: upper_def upper_char_def)
  have a: "fst (resolve_client_for_team broken_remote broken_listed ''back'')
       = Inr (LinearClient 1 ''lin_api_backend'' ''https://api.linear.app/graphql'' 10)"
    by (simp add: resolve_client_for_team_def u broken_listed_eq
      example_registry_def example_workspaces_def init_def get_client_def)
  have b: "fst (resolve_client_for_team broken_remote
                  (broken_listed\<lparr>team_cache := Map.empty\<rparr>) ''back'')
       = Inl (OtherException ''boom'')"
    by (simp add: resolve_client_for_team_def u broken_listed_eq
      example_registry_def example_workspaces_def init_def get_client_def Let_def
      broken_remote_def LinearClient_def)
  have "\<not> same_resolution broken_listed
         (resolve_client_for_team broken_remote broken_listed ''back'')
         (resolve_client_for_team broken_remote (broken_listed\<lparr>team_cache := Map.empty\<rparr>)
            ''back'')"
    unfolding same_resolution_def a b by simp
  with reach names cache owner other a b show ?thesis by simp
qed

end
